theory Spec2Isabelle
  imports Main "HOL-Library.AList"
begin

section \<open>Values, documents and errors\<close>

text \<open>
  The Python values that web.py stores in a service's configuration document or receives
  as the result of a submission: \<open>None\<close>, strings, lists (the Tumblr credential is
  \<open>list(access_token)\<close>), dictionaries (the metadata answered by a third party) and the
  object ids the document store assigns. A dictionary is an association list read with
  \<open>map_of\<close> and written with \<open>AList.update\<close> and \<open>AList.delete\<close>.
\<close>

datatype pyval =
    PNone
  | PStr string
  | PList "pyval list"
  | PDict "(string \<times> pyval) list"
  | PId nat

type_synonym document = "(string \<times> pyval) list"

text \<open>Python's \<open>bool(v)\<close>.\<close>

fun truthy :: "pyval \<Rightarrow> bool" where
  "truthy PNone = False"
| "truthy (PStr s) = (s \<noteq> [])"
| "truthy (PList vs) = (vs \<noteq> [])"
| "truthy (PDict kvs) = (kvs \<noteq> [])"
| "truthy (PId n) = True"

text \<open>\<open>os.environ.get(name)\<close> and \<open>request.args.get(name)\<close> answer a string or \<open>None\<close>.\<close>

fun str_truthy :: "string option \<Rightarrow> bool" where
  "str_truthy None = False"
| "str_truthy (Some s) = (s \<noteq> [])"

text \<open>
  The exceptions that can travel through the code of web.py. \<open>PyMongoError\<close> is what a
  call to the document store raises, \<open>ThirdParty\<close> what a call to Dropbox or Tumblr
  raises; the five \<open>DropboxOAuth2Flow\<close> exceptions are the ones \<open>dropbox_callback\<close>
  names; \<open>HTTPException n\<close> is Flask's \<open>abort(n)\<close>; \<open>RuntimeError\<close> is what Flask raises
  when the session is written and the application has no secret key.
\<close>

datatype error =
    NotImplementedError
  | KeyError string
  | NameError string
  | TypeError
  | RuntimeError
  | BuildError string
  | HTTPException nat
  | PyMongoError
  | ThirdParty string
  | BadRequestException
  | BadStateException
  | CsrfException
  | NotApprovedException
  | ProviderException

section \<open>The document store\<close>

text \<open>
  Modelled from the spec: the document store behind \<open>mongo.services\<close> is pymongo, which is
  not part of web.py. It is consumed through \<open>find_one(filter) -> Document|absent\<close> and
  \<open>save(document) -> id\<close> with upsert semantics: a document without \<open>_id\<close> is inserted
  under an id no stored document has (and the id is written into the saved dictionary),
  a document with \<open>_id\<close> replaces the stored document of that id or is inserted.
  Every call can raise; \<open>faults\<close> scripts the outcome of the coming calls, \<open>True\<close> for a
  call that raises, and calls beyond the script succeed.
\<close>

record mongo_state =
  coll :: "document list"
  faults :: "bool list"

definition raises :: "mongo_state \<Rightarrow> bool" where
  "raises m = (case faults m of [] \<Rightarrow> False | b # _ \<Rightarrow> b)"

definition tick :: "mongo_state \<Rightarrow> mongo_state" where
  "tick m = m\<lparr>faults := tl (faults m)\<rparr>"

definition matches :: "document \<Rightarrow> document \<Rightarrow> bool" where
  "matches flt d = list_all (\<lambda>(k, v). map_of d k = Some v) flt"

definition find_one :: "document \<Rightarrow> mongo_state \<Rightarrow> (error + document option) \<times> mongo_state" where
  "find_one flt m =
     (if raises m then (Inl PyMongoError, tick m)
      else (Inr (find (matches flt) (coll m)), tick m))"

fun oid_of :: "document \<Rightarrow> nat" where
  "oid_of d = (case map_of d ''_id'' of Some (PId n) \<Rightarrow> Suc n | _ \<Rightarrow> 0)"

definition new_oid :: "document list \<Rightarrow> nat" where
  "new_oid ds = fold max (map oid_of ds) 0"

definition upsert :: "pyval \<Rightarrow> document \<Rightarrow> document list \<Rightarrow> document list" where
  "upsert i d ds =
     (if list_ex (\<lambda>d'. map_of d' ''_id'' = Some i) ds
      then map (\<lambda>d'. if map_of d' ''_id'' = Some i then d else d') ds
      else ds @ [d])"

definition save :: "document \<Rightarrow> mongo_state \<Rightarrow> (error + pyval \<times> document) \<times> mongo_state" where
  "save d m =
     (if raises m then (Inl PyMongoError, tick m)
      else
        (let i = (case map_of d ''_id'' of Some v \<Rightarrow> v | None \<Rightarrow> PId (new_oid (coll m)));
             d' = (case map_of d ''_id'' of Some v \<Rightarrow> d | None \<Rightarrow> AList.update ''_id'' i d)
         in (Inr (i, d'), (tick m)\<lparr>coll := upsert i d' (coll m)\<rparr>)))"

section \<open>Services\<close>

text \<open>
  The three classes derived from \<open>Service\<close>. An instance holds the client credentials read
  from the process environment (\<open>hostname\<close> is read by \<open>TumblrService\<close> only, and
  \<open>JIFBOXService\<close> reads none) and \<open>_config\<close>, its in-memory copy of the stored document.
\<close>

datatype service_kind = Dropbox | Tumblr | JIFBOX

record service =
  kind :: service_kind
  client_key :: "string option"
  client_secret :: "string option"
  hostname :: "string option"
  config :: document

fun service_id :: "service_kind \<Rightarrow> string" where
  "service_id Dropbox = ''dropbox''"
| "service_id Tumblr = ''tumblr''"
| "service_id JIFBOX = ''jifbox''"

text \<open>
  \<open>Service.register\<close>. The document found by the filter is truthy (it holds at least the
  filtered field), so only \<open>None\<close> leads to the creation. The second \<open>find_one\<close> reads
  back the id that \<open>save\<close> has just answered; the store always holds it
  (lemma \<open>find_upsert_id\<close>), and the branch for \<open>None\<close> keeps the function total.
\<close>

definition register :: "string \<Rightarrow> mongo_state \<Rightarrow> (error + document) \<times> mongo_state" where
  "register sid m =
     (case find_one [(''service_id'', PStr sid)] m of
        (Inl e, m1) \<Rightarrow> (Inl e, m1)
      | (Inr (Some d), m1) \<Rightarrow> (Inr d, m1)
      | (Inr None, m1) \<Rightarrow>
          (case save [(''service_id'', PStr sid)] m1 of
             (Inl e, m2) \<Rightarrow> (Inl e, m2)
           | (Inr (doc_id, _), m2) \<Rightarrow>
               (case find_one [(''_id'', doc_id)] m2 of
                  (Inl e, m3) \<Rightarrow> (Inl e, m3)
                | (Inr (Some d), m3) \<Rightarrow> (Inr d, m3)
                | (Inr None, m3) \<Rightarrow> (Inr [], m3))))"

text \<open>
  \<open>__delitem__\<close>, \<open>__getitem__\<close> and \<open>__setitem__\<close>. The dictionary is changed first and
  saved second; when \<open>save\<close> raises, the exception leaves the method and the dictionary
  stays as changed. Each function answers the outcome, the service and the store.
\<close>

definition delitem :: "string \<Rightarrow> service \<Rightarrow> mongo_state \<Rightarrow> (error + unit) \<times> service \<times> mongo_state" where
  "delitem key s m =
     (if map_of (config s) key \<noteq> None then
        (let cfg = AList.delete key (config s) in
         case save cfg m of
           (Inl e, m') \<Rightarrow> (Inl e, s\<lparr>config := cfg\<rparr>, m')
         | (Inr (_, cfg'), m') \<Rightarrow> (Inr (), s\<lparr>config := cfg'\<rparr>, m'))
      else (Inr (), s, m))"

definition getitem :: "service \<Rightarrow> string \<Rightarrow> pyval" where
  "getitem s key = (case map_of (config s) key of None \<Rightarrow> PNone | Some v \<Rightarrow> v)"

definition setitem :: "string \<Rightarrow> pyval \<Rightarrow> service \<Rightarrow> mongo_state \<Rightarrow> (error + unit) \<times> service \<times> mongo_state" where
  "setitem key v s m =
     (let cfg = AList.update key v (config s) in
      case save cfg m of
        (Inl e, m') \<Rightarrow> (Inl e, s\<lparr>config := cfg\<rparr>, m')
      | (Inr (_, cfg'), m') \<Rightarrow> (Inr (), s\<lparr>config := cfg'\<rparr>, m'))"

text \<open>
  \<open>is_available\<close> and \<open>is_enabled\<close>: properties of \<open>DropboxService\<close> and \<open>TumblrService\<close>,
  the class attribute \<open>False\<close> of \<open>JIFBOXService\<close>.
\<close>

definition is_available :: "service \<Rightarrow> bool" where
  "is_available s =
     (case kind s of
        Dropbox \<Rightarrow> str_truthy (client_key s) \<and> str_truthy (client_secret s)
      | Tumblr \<Rightarrow> str_truthy (client_key s) \<and> str_truthy (client_secret s) \<and> str_truthy (hostname s)
      | JIFBOX \<Rightarrow> False)"

definition is_enabled :: "service \<Rightarrow> bool" where
  "is_enabled s =
     (case kind s of
        Dropbox \<Rightarrow> truthy (getitem s ''access_token'')
      | Tumblr \<Rightarrow> truthy (getitem s ''access_token'')
      | JIFBOX \<Rightarrow> False)"

section \<open>Third parties\<close>

text \<open>
  The calls that leave the process: the Dropbox client, the rauth OAuth1 session of
  Tumblr and the two authorization flows. Their answers are not decided by web.py, so
  they are parameters of the model; each answers a value or raises.
  \<open>oauth1\<close> is the \<open>OAuth1Service\<close> built by \<open>tumblr_auth_flow\<close> (its name and its three
  endpoint URLs are constants of the source).
\<close>

record oauth1 =
  consumer_key :: "string option"
  consumer_secret :: "string option"
  base_url :: string

record third_party =
  put_file :: "pyval \<Rightarrow> string \<Rightarrow> string \<Rightarrow> error + pyval"
  post :: "oauth1 \<Rightarrow> pyval \<Rightarrow> document \<Rightarrow> error + pyval"
  get_request_token :: "oauth1 \<Rightarrow> error + string \<times> string"
  get_authorize_url :: "oauth1 \<Rightarrow> string \<Rightarrow> string"
  get_access_token :: "oauth1 \<Rightarrow> pyval \<Rightarrow> pyval \<Rightarrow> string \<Rightarrow> error + string \<times> string"
  finish :: "(string \<times> string) list \<Rightarrow> error + string \<times> string \<times> pyval"

text \<open>The payload built by \<open>giffed\<close>; a \<open>datetime\<close> is kept as its \<open>isoformat()\<close>.\<close>

record payload =
  filename :: string
  data :: string
  timestamp :: string

text \<open>\<open>'%s' % v\<close> for a string or \<open>None\<close>.\<close>

fun format_s :: "string option \<Rightarrow> string" where
  "format_s None = ''None''"
| "format_s (Some s) = s"

text \<open>\<open>tumblr_auth_flow\<close> reads the global registry \<open>services\<close>, not the instance.\<close>

definition tumblr_auth_flow :: "(string \<times> service) list \<Rightarrow> error + oauth1" where
  "tumblr_auth_flow services =
     (case map_of services ''tumblr'' of
        None \<Rightarrow> Inl (KeyError ''tumblr'')
      | Some ts \<Rightarrow>
          Inr \<lparr>consumer_key = client_key ts, consumer_secret = client_secret ts,
               base_url = ''https://api.tumblr.com/v2/blog/'' @ format_s (hostname ts) @ ''/''\<rparr>)"

text \<open>
  \<open>process\<close> of the three classes: \<open>DropboxService.process\<close>, \<open>TumblrService.process\<close> and
  the inherited \<open>Service.process\<close>. None of them reads \<open>is_available\<close> or \<open>is_enabled\<close>.
\<close>

definition process :: "third_party \<Rightarrow> (string \<times> service) list \<Rightarrow> service \<Rightarrow> payload \<Rightarrow> error + pyval" where
  "process tp services s p =
     (case kind s of
        Dropbox \<Rightarrow> put_file tp (getitem s ''access_token'') (filename p) (data p)
      | Tumblr \<Rightarrow>
          (case tumblr_auth_flow services of
             Inl e \<Rightarrow> Inl e
           | Inr flow \<Rightarrow>
               post tp flow (getitem s ''access_token'')
                 [(''type'', PStr ''text''), (''state'', PStr ''published''),
                  (''title'', PStr (filename p)), (''body'', PStr (data p))])
      | JIFBOX \<Rightarrow> Inl NotImplementedError)"

section \<open>The application\<close>

text \<open>
  The state of the process: the registry \<open>services\<close> in the order \<open>services.items()\<close>
  yields it, the document store and the messages flashed into the session (web.py sets
  no \<open>secret_key\<close>, so \<open>flash\<close> raises and none is ever stored).
\<close>

record app =
  services :: "(string \<times> service) list"
  mongo :: mongo_state
  flashes :: "string list"

datatype response =
    Redirect string
  | Jsonify document
  | Rendered string

text \<open>
  Flask's \<open>url_for\<close> over the endpoints that the \<open>@app.route\<close> decorators of web.py
  register; an endpoint that is not registered raises \<open>BuildError\<close>.
\<close>

definition url_map :: "(string \<times> string) list" where
  "url_map =
     [(''index'', ''/''), (''giffed'', ''/giffed''), (''settings'', ''/settings''),
      (''dropbox_auth'', ''/settings/dropbox/auth''),
      (''dropbox_callback'', ''/settings/dropbox/callback''),
      (''dropbox_logout'', ''/settings/dropbox/logout''),
      (''tumblr_auth'', ''/settings/tumblr/auth''),
      (''tumblr_callback'', ''/settings/tumblr/callback''),
      (''tumblr_logout'', ''/settings/tumblr/logout'')]"

definition url_for :: "string \<Rightarrow> error + string" where
  "url_for endpoint =
     (case map_of url_map endpoint of None \<Rightarrow> Inl (BuildError endpoint) | Some u \<Rightarrow> Inr u)"

definition redirect_to :: "string \<Rightarrow> app \<Rightarrow> (error + response) \<times> app" where
  "redirect_to endpoint st =
     (case url_for endpoint of Inl e \<Rightarrow> (Inl e, st) | Inr u \<Rightarrow> (Inr (Redirect u), st))"

text \<open>
  The names bound at module level of web.py (imports, assignments, classes, functions);
  reading any other global name that is not a builtin raises \<open>NameError\<close>.
\<close>

definition module_names :: "string list" where
  "module_names =
     [''datetime'', ''os'', ''urlparse'', ''DropboxClient'', ''DropboxOAuth2Flow'', ''Flask'',
      ''abort'', ''flash'', ''jsonify'', ''redirect'', ''render_template'', ''request'',
      ''session'', ''url_for'', ''MongoClient'', ''OAuth1Service'', ''mongo_url'',
      ''mongo_conn'', ''mongo_params'', ''mongo'', ''Service'', ''DropboxService'',
      ''TumblrService'', ''JIFBOXService'', ''services'', ''dropbox_auth_flow'',
      ''tumblr_auth_flow'', ''app'', ''index'', ''giffed'', ''settings'', ''dropbox_auth'',
      ''dropbox_callback'', ''dropbox_logout'', ''tumblr_auth'', ''tumblr_callback'',
      ''tumblr_logout'']"

definition global_name :: "string \<Rightarrow> error + unit" where
  "global_name n = (if n \<in> set module_names then Inr () else Inl (NameError n))"

subsection \<open>giffed\<close>

text \<open>
  The loop of \<open>giffed\<close> over \<open>services.items()\<close>. Beside the outcome it answers the trace
  of what it read and called: \<open>service.is_available\<close>, then (only when that was true, as
  \<open>and\<close> evaluates) \<open>service.is_enabled\<close>, then \<open>service.process(payload)\<close>. There is no
  \<open>try\<close> around the call: an exception of \<open>process\<close> ends the loop and leaves \<open>giffed\<close>.
\<close>

datatype event = AvailableRead string | EnabledRead string | ProcessCall string

fun giffed_loop ::
  "third_party \<Rightarrow> (string \<times> service) list \<Rightarrow> payload \<Rightarrow> (string \<times> service) list \<Rightarrow>
   document \<Rightarrow> (error + document) \<times> event list" where
  "giffed_loop tp reg p [] active = (Inr active, [])"
| "giffed_loop tp reg p ((sid, s) # rest) active =
     (if is_available s then
        (if is_enabled s then
           (case process tp reg s p of
              Inl e \<Rightarrow> (Inl e, [AvailableRead sid, EnabledRead sid, ProcessCall sid])
            | Inr meta \<Rightarrow>
                (let (r, tr) = giffed_loop tp reg p rest
                                 (if truthy meta then AList.update sid meta active else active)
                 in (r, [AvailableRead sid, EnabledRead sid, ProcessCall sid] @ tr)))
         else (let (r, tr) = giffed_loop tp reg p rest active
               in (r, [AvailableRead sid, EnabledRead sid] @ tr)))
      else (let (r, tr) = giffed_loop tp reg p rest active
            in (r, [AvailableRead sid] @ tr)))"

definition giffed :: "third_party \<Rightarrow> string \<Rightarrow> app \<Rightarrow> (error + response) \<times> event list" where
  "giffed tp utcnow st =
     (let p = \<lparr>filename = utcnow @ ''.txt'', data = utcnow, timestamp = utcnow\<rparr>
      in case giffed_loop tp (services st) p (services st) [] of
           (Inl e, tr) \<Rightarrow> (Inl e, tr)
         | (Inr active, tr) \<Rightarrow> (Inr (Jsonify [(''active_services'', PDict active)]), tr))"

subsection \<open>Construction of the Dropbox service\<close>

text \<open>\<open>DropboxService.__init__\<close>, with \<open>os.environ\<close> as an association list.\<close>

definition DropboxService_init ::
  "(string \<times> string) list \<Rightarrow> mongo_state \<Rightarrow> (error + service) \<times> mongo_state" where
  "DropboxService_init environ m =
     (case register (service_id Dropbox) m of
        (Inl e, m1) \<Rightarrow> (Inl e, m1)
      | (Inr cfg, m1) \<Rightarrow>
          (let s = \<lparr>kind = Dropbox, client_key = map_of environ ''DROPBOX_KEY'',
                    client_secret = map_of environ ''DROPBOX_SECRET'', hostname = None,
                    config = cfg\<rparr>
           in case map_of environ ''DROPBOX_TOKEN'' of
                None \<Rightarrow> (Inr s, m1)
              | Some access_token \<Rightarrow>
                  (if access_token \<noteq> [] then
                     (case setitem ''access_token'' (PStr access_token) s m1 of
                        (Inl e, s', m2) \<Rightarrow> (Inl e, m2)
                      | (Inr _, s', m2) \<Rightarrow> (Inr s', m2))
                   else (Inr s, m1))))"

subsection \<open>The authorization callbacks\<close>

text \<open>
  The registry holds the service objects themselves, so a change made through
  \<open>services['tumblr']\<close> is a change of the registry entry.
\<close>

definition put_service :: "string \<Rightarrow> service \<Rightarrow> mongo_state \<Rightarrow> app \<Rightarrow> app" where
  "put_service sid s m st = st\<lparr>services := AList.update sid s (services st), mongo := m\<rparr>"

text \<open>
  The \<open>except\<close> clauses of \<open>dropbox_callback\<close>, in their order. The application is
  created as \<open>Flask(__name__)\<close> and no \<open>secret_key\<close> is set, so \<open>flash\<close> cannot write the
  session and raises \<open>RuntimeError\<close> before \<open>url_for('home')\<close> is evaluated; nothing is
  flashed. \<open>"Auth error" + e\<close> adds an exception to a string, which raises \<open>TypeError\<close>
  before the logger and \<open>abort(403)\<close> are reached. An exception of another class is not
  caught.
\<close>

fun dropbox_except :: "error \<Rightarrow> app \<Rightarrow> (error + response) \<times> app" where
  "dropbox_except BadRequestException st = (Inl (HTTPException 400), st)"
| "dropbox_except BadStateException st = (Inl (HTTPException 400), st)"
| "dropbox_except CsrfException st = (Inl (HTTPException 403), st)"
| "dropbox_except NotApprovedException st = (Inl RuntimeError, st)"
| "dropbox_except ProviderException st = (Inl TypeError, st)"
| "dropbox_except e st = (Inl e, st)"

text \<open>
  \<open>dropbox_callback\<close>. The body of the \<open>try\<close> calls \<open>get_auth_flow()\<close>, a global name read
  before \<open>finish\<close> can be called.
\<close>

definition dropbox_callback ::
  "third_party \<Rightarrow> (string \<times> string) list \<Rightarrow> app \<Rightarrow> (error + response) \<times> app" where
  "dropbox_callback tp args st =
     (case (case global_name ''get_auth_flow'' of Inl e \<Rightarrow> Inl e | Inr _ \<Rightarrow> finish tp args) of
        Inl e \<Rightarrow> dropbox_except e st
      | Inr (access_token, user_id, url_state) \<Rightarrow>
          (case map_of (services st) ''dropbox'' of
             None \<Rightarrow> (Inl (KeyError ''dropbox''), st)
           | Some s \<Rightarrow>
               (case setitem ''access_token'' (PStr access_token) s (mongo st) of
                  (Inl e, s', m') \<Rightarrow> (Inl e, put_service ''dropbox'' s' m' st)
                | (Inr _, s', m') \<Rightarrow> redirect_to ''settings'' (put_service ''dropbox'' s' m' st))))"

text \<open>\<open>tumblr_auth\<close>: the request token and its secret are stored in the configuration.\<close>

definition tumblr_auth :: "third_party \<Rightarrow> app \<Rightarrow> (error + response) \<times> app" where
  "tumblr_auth tp st =
     (case map_of (services st) ''tumblr'' of
        None \<Rightarrow> (Inl (KeyError ''tumblr''), st)
      | Some service \<Rightarrow>
          (case tumblr_auth_flow (services st) of
             Inl e \<Rightarrow> (Inl e, st)
           | Inr flow \<Rightarrow>
               (case get_request_token tp flow of
                  Inl e \<Rightarrow> (Inl e, st)
                | Inr (request_token, request_token_secret) \<Rightarrow>
                    (case setitem ''request_token'' (PStr request_token) service (mongo st) of
                       (Inl e, s1, m1) \<Rightarrow> (Inl e, put_service ''tumblr'' s1 m1 st)
                     | (Inr _, s1, m1) \<Rightarrow>
                         (case setitem ''request_secret'' (PStr request_token_secret) s1 m1 of
                            (Inl e, s2, m2) \<Rightarrow> (Inl e, put_service ''tumblr'' s2 m2 st)
                          | (Inr _, s2, m2) \<Rightarrow>
                              (Inr (Redirect (get_authorize_url tp flow request_token)),
                               put_service ''tumblr'' s2 m2 st))))))"

text \<open>
  \<open>tumblr_callback\<close>. \<open>oauth_token and oauth_verifier\<close> is true when both parameters are
  present and not empty. The two \<open>del\<close> statements follow the exchange and the
  assignment; an exception of either leaves the function before them.
\<close>

definition tumblr_callback ::
  "third_party \<Rightarrow> (string \<times> string) list \<Rightarrow> app \<Rightarrow> (error + response) \<times> app" where
  "tumblr_callback tp args st =
     (case map_of args ''oauth_verifier'' of
        None \<Rightarrow> redirect_to ''settings'' st
      | Some oauth_verifier \<Rightarrow>
          (if str_truthy (map_of args ''oauth_token'') \<and> oauth_verifier \<noteq> [] then
             (case map_of (services st) ''tumblr'' of
                None \<Rightarrow> (Inl (KeyError ''tumblr''), st)
              | Some service \<Rightarrow>
                  (case tumblr_auth_flow (services st) of
                     Inl e \<Rightarrow> (Inl e, st)
                   | Inr flow \<Rightarrow>
                       (case get_access_token tp flow (getitem service ''request_token'')
                               (getitem service ''request_secret'') oauth_verifier of
                          Inl e \<Rightarrow> (Inl e, st)
                        | Inr (tok, sec) \<Rightarrow>
                            (case setitem ''access_token'' (PList [PStr tok, PStr sec]) service (mongo st) of
                               (Inl e, s1, m1) \<Rightarrow> (Inl e, put_service ''tumblr'' s1 m1 st)
                             | (Inr _, s1, m1) \<Rightarrow>
                                 (case delitem ''request_token'' s1 m1 of
                                    (Inl e, s2, m2) \<Rightarrow> (Inl e, put_service ''tumblr'' s2 m2 st)
                                  | (Inr _, s2, m2) \<Rightarrow>
                                      (case delitem ''request_secret'' s2 m2 of
                                         (Inl e, s3, m3) \<Rightarrow> (Inl e, put_service ''tumblr'' s3 m3 st)
                                       | (Inr _, s3, m3) \<Rightarrow>
                                           redirect_to ''settings'' (put_service ''tumblr'' s3 m3 st)))))))
           else redirect_to ''settings'' st))"

section \<open>Notions the properties are stated with\<close>


text \<open>
  The status line a client of Flask sees: the code of an \<open>abort\<close>, 302 for a redirect,
  200 for a rendered or JSON body, and 500 for any other exception that leaves the view.
\<close>

fun status :: "error + response \<Rightarrow> nat" where
  "status (Inr (Redirect u)) = 302"
| "status (Inr r) = 200"
| "status (Inl (HTTPException n)) = n"
| "status (Inl e) = 500"

section \<open>Third parties used in the examples\<close>

text \<open>
  \<open>offline\<close>: every call to a third party raises. \<open>accepting\<close>: Dropbox answers the
  metadata of the stored file, Tumblr the status of the post, and the token exchanges
  answer tokens. \<open>dropbox_down\<close>: as \<open>accepting\<close>, but the Dropbox upload raises.
  \<open>silent\<close>: as \<open>accepting\<close>, but the Dropbox upload answers an empty dictionary.
\<close>

definition offline :: third_party where
  "offline =
     \<lparr>put_file = (\<lambda>token name content. Inl (ThirdParty ''offline'')),
      post = (\<lambda>flow token d. Inl (ThirdParty ''offline'')),
      get_request_token = (\<lambda>flow. Inl (ThirdParty ''offline'')),
      get_authorize_url = (\<lambda>flow token. ''http://www.tumblr.com/oauth/authorize''),
      get_access_token = (\<lambda>flow token secret verifier. Inl (ThirdParty ''offline'')),
      finish = (\<lambda>args. Inl (ThirdParty ''offline''))\<rparr>"

definition accepting :: third_party where
  "accepting =
     \<lparr>put_file = (\<lambda>token name content. Inr (PDict [(''path'', PStr name)])),
      post = (\<lambda>flow token d. Inr (PDict [(''meta'', PDict [(''status'', PStr ''201'')])])),
      get_request_token = (\<lambda>flow. Inr (''rt'', ''rs'')),
      get_authorize_url = (\<lambda>flow token. ''http://www.tumblr.com/oauth/authorize''),
      get_access_token = (\<lambda>flow token secret verifier. Inr (''at'', ''as'')),
      finish = (\<lambda>args. Inr (''tok'', ''uid'', PNone))\<rparr>"

definition dropbox_down :: third_party where
  "dropbox_down = accepting\<lparr>put_file := (\<lambda>token name content. Inl (ThirdParty ''dropbox''))\<rparr>"

definition silent :: third_party where
  "silent = accepting\<lparr>put_file := (\<lambda>token name content. Inr (PDict []))\<rparr>"

text \<open>
  Services used in the examples: a Dropbox and a Tumblr service that are available and
  enabled, a Tumblr service that is available and holds no credential, a Dropbox
  service that was given a token and no client key, a Tumblr service that waits for the
  callback of an authorization (with the application that holds it), and the
  configuration-only service.
\<close>

definition dropbox_ok :: service where
  "dropbox_ok =
     \<lparr>kind = Dropbox, client_key = Some ''key'', client_secret = Some ''secret'',
      hostname = None,
      config = [(''_id'', PId 0), (''service_id'', PStr ''dropbox''),
                (''access_token'', PStr ''tok'')]\<rparr>"

definition tumblr_ok :: service where
  "tumblr_ok =
     \<lparr>kind = Tumblr, client_key = Some ''key'', client_secret = Some ''secret'',
      hostname = Some ''blog.tumblr.com'',
      config = [(''_id'', PId 1), (''service_id'', PStr ''tumblr''),
                (''access_token'', PList [PStr ''at'', PStr ''as''])]\<rparr>"

definition tumblr_unauthorized :: service where
  "tumblr_unauthorized =
     \<lparr>kind = Tumblr, client_key = Some ''key'', client_secret = Some ''secret'',
      hostname = Some ''blog.tumblr.com'',
      config = [(''_id'', PId 1), (''service_id'', PStr ''tumblr'')]\<rparr>"

definition dropbox_keyless :: service where
  "dropbox_keyless =
     \<lparr>kind = Dropbox, client_key = None, client_secret = None, hostname = None,
      config = [(''_id'', PId 0), (''service_id'', PStr ''dropbox''),
                (''access_token'', PStr ''tok'')]\<rparr>"

definition tumblr_pending :: service where
  "tumblr_pending =
     \<lparr>kind = Tumblr, client_key = Some ''key'', client_secret = Some ''secret'',
      hostname = Some ''blog.tumblr.com'',
      config = [(''_id'', PId 1), (''service_id'', PStr ''tumblr''),
                (''request_token'', PStr ''rt''), (''request_secret'', PStr ''rs'')]\<rparr>"

definition pending_app :: app where
  "pending_app =
     \<lparr>services = [(''tumblr'', tumblr_pending)],
      mongo = \<lparr>coll = [[(''_id'', PId 1), (''service_id'', PStr ''tumblr''),
                        (''request_token'', PStr ''rt''), (''request_secret'', PStr ''rs'')]],
               faults = []\<rparr>,
      flashes = []\<rparr>"

definition jifbox :: service where
  "jifbox =
     \<lparr>kind = JIFBOX, client_key = None, client_secret = None, hostname = None,
      config = [(''_id'', PId 2), (''service_id'', PStr ''jifbox'')]\<rparr>"

definition noon :: payload where
  "noon = \<lparr>filename = ''x.txt'', data = ''hello'', timestamp = ''2014-01-01T12:00:00''\<rparr>"

section \<open>Basic facts\<close>


lemma url_for_settings: "url_for ''settings'' = Inr ''/settings''"
  by (simp add: url_for_def url_map_def)

section \<open>Configuration writes\<close>

text \<open>
  C2, as the specification states it, asks that a set or delete whose save fails leaves
  the in-memory document equal to its value before the call. Setting \<open>access_token\<close>
  to \<open>new\<close> while the store rejects the write raises the store's error, and the in-memory
  document already holds \<open>new\<close> in place of \<open>old\<close>.
\<close>

theorem setitem_failed_save_not_rolled_back:
  "fst (setitem ''access_token'' (PStr ''new'')
          \<lparr>kind = Dropbox, client_key = Some ''k'', client_secret = Some ''s'', hostname = None,
           config = [(''_id'', PId 0), (''service_id'', PStr ''dropbox''),
                     (''access_token'', PStr ''old'')]\<rparr>
          \<lparr>coll = [[(''_id'', PId 0), (''service_id'', PStr ''dropbox''),
                    (''access_token'', PStr ''old'')]], faults = [True]\<rparr>) = Inl PyMongoError
   \<and> config (fst (snd (setitem ''access_token'' (PStr ''new'')
          \<lparr>kind = Dropbox, client_key = Some ''k'', client_secret = Some ''s'', hostname = None,
           config = [(''_id'', PId 0), (''service_id'', PStr ''dropbox''),
                     (''access_token'', PStr ''old'')]\<rparr>
          \<lparr>coll = [[(''_id'', PId 0), (''service_id'', PStr ''dropbox''),
                    (''access_token'', PStr ''old'')]], faults = [True]\<rparr>)))
     \<noteq> [(''_id'', PId 0), (''service_id'', PStr ''dropbox''), (''access_token'', PStr ''old'')]"
  by (simp add: setitem_def save_def raises_def tick_def)

text \<open>
  C2, amended: when the store rejects the write of a set or of a delete, the store's
  error leaves the method, the documents of the store are as before, and the in-memory
  document holds the change already (the key bound to the new value, or the key removed);
  nothing is rolled back. A delete of a key that is not in the document writes nothing
  and cannot fail.
\<close>

theorem failed_save_keeps_mutation:
  "raises m \<Longrightarrow>
     setitem key v s m = (Inl PyMongoError, s\<lparr>config := AList.update key v (config s)\<rparr>, tick m) \<and>
     delitem key s m =
       (if map_of (config s) key \<noteq> None
        then (Inl PyMongoError, s\<lparr>config := AList.delete key (config s)\<rparr>, tick m)
        else (Inr (), s, m)) \<and>
     coll (tick m) = coll m"
  by (simp add: setitem_def delitem_def save_def tick_def)

theorem failed_save_keeps_mutation_witness:
  "raises \<lparr>coll = [[(''_id'', PId 0), (''access_token'', PStr ''old'')]], faults = [True]\<rparr> \<and>
   delitem ''access_token''
     \<lparr>kind = Tumblr, client_key = None, client_secret = None, hostname = None,
      config = [(''_id'', PId 0), (''access_token'', PStr ''old'')]\<rparr>
     \<lparr>coll = [[(''_id'', PId 0), (''access_token'', PStr ''old'')]], faults = [True]\<rparr>
   = (Inl PyMongoError,
      \<lparr>kind = Tumblr, client_key = None, client_secret = None, hostname = None,
       config = [(''_id'', PId 0)]\<rparr>,
      \<lparr>coll = [[(''_id'', PId 0), (''access_token'', PStr ''old'')]], faults = []\<rparr>)"
proof -
  have h: "raises \<lparr>coll = [[(''_id'', PId 0), (''access_token'', PStr ''old'')]], faults = [True]\<rparr>"
    by (simp add: raises_def)
  show ?thesis
    using h failed_save_keeps_mutation [OF h, of "''access_token''" PNone
      "\<lparr>kind = Tumblr, client_key = None, client_secret = None, hostname = None,
        config = [(''_id'', PId 0), (''access_token'', PStr ''old'')]\<rparr>"]
    by (simp add: tick_def)
qed

section \<open>Enablement\<close>



section \<open>The Dropbox callback\<close>

text \<open>
  C7 asks that each failure of \<open>finish\<close> (a malformed request, a bad state, a failed CSRF
  verification, a declined authorization, a failure reported by the provider) reaches
  the caller of the callback with a status of its own. As web.py is written, the body of
  the \<open>try\<close> never calls \<open>finish\<close>: the name \<open>get_auth_flow\<close> is not bound (the function is
  \<open>dropbox_auth_flow\<close>), and \<open>NameError\<close> is none of the classes the \<open>except\<close> clauses name.
  Whatever the third party would answer, and whatever the request and the state are, the
  callback is left by \<open>NameError\<close>, the state is unchanged and the caller sees status 500.
\<close>

theorem dropbox_callback_status_500:
  "dropbox_callback tp args st = (Inl (NameError ''get_auth_flow''), st) \<and>
   status (fst (dropbox_callback tp args st)) = 500"
  by (simp add: dropbox_callback_def global_name_def module_names_def)

section \<open>The Tumblr callback\<close>

text \<open>
  C10: when the callback is invoked without the parameter \<open>oauth_token\<close> or without the
  parameter \<open>oauth_verifier\<close>, it answers the redirect to the settings page and the state
  (the registry with every configuration, and the store) is the one it was called in.
\<close>

theorem tumblr_callback_missing_parameter:
  "map_of args ''oauth_token'' = None \<or> map_of args ''oauth_verifier'' = None \<Longrightarrow>
   tumblr_callback tp args st = (Inr (Redirect ''/settings''), st)"
  by (auto simp: tumblr_callback_def redirect_to_def url_for_settings split: option.splits)

theorem tumblr_callback_missing_parameter_witness:
  "map_of [(''oauth_token'', ''t0'')] ''oauth_verifier'' = None \<and>
   tumblr_callback offline [(''oauth_token'', ''t0'')]
     \<lparr>services = [(''tumblr'',
         \<lparr>kind = Tumblr, client_key = Some ''k'', client_secret = Some ''s'',
          hostname = Some ''h'',
          config = [(''_id'', PId 0), (''request_token'', PStr ''rt'')]\<rparr>)],
      mongo = \<lparr>coll = [[(''_id'', PId 0), (''request_token'', PStr ''rt'')]], faults = []\<rparr>,
      flashes = []\<rparr>
   = (Inr (Redirect ''/settings''),
     \<lparr>services = [(''tumblr'',
         \<lparr>kind = Tumblr, client_key = Some ''k'', client_secret = Some ''s'',
          hostname = Some ''h'',
          config = [(''_id'', PId 0), (''request_token'', PStr ''rt'')]\<rparr>)],
      mongo = \<lparr>coll = [[(''_id'', PId 0), (''request_token'', PStr ''rt'')]], faults = []\<rparr>,
      flashes = []\<rparr>)"
proof -
  have h: "map_of [(''oauth_token'', ''t0'')] ''oauth_token'' = None \<or>
           map_of [(''oauth_token'', ''t0'')] ''oauth_verifier'' = None"
    by simp
  show ?thesis
    using tumblr_callback_missing_parameter [OF h] by simp
qed

section \<open>The loop of giffed\<close>

lemma giffed_loop_fst_Cons:
  "fst (giffed_loop tp reg p ((sid, s) # rest) active) =
     (if is_available s \<and> is_enabled s then
        (case process tp reg s p of
           Inl e \<Rightarrow> Inl e
         | Inr meta \<Rightarrow>
             fst (giffed_loop tp reg p rest
                    (if truthy meta then AList.update sid meta active else active)))
      else fst (giffed_loop tp reg p rest active))"
  by (simp add: split_def Let_def split: sum.splits)

lemma giffed_loop_snd_Cons:
  "snd (giffed_loop tp reg p ((sid, s) # rest) active) =
     (if is_available s then
        (if is_enabled s then
           [AvailableRead sid, EnabledRead sid, ProcessCall sid] @
           (case process tp reg s p of
              Inl e \<Rightarrow> []
            | Inr meta \<Rightarrow>
                snd (giffed_loop tp reg p rest
                       (if truthy meta then AList.update sid meta active else active)))
         else [AvailableRead sid, EnabledRead sid] @ snd (giffed_loop tp reg p rest active))
      else [AvailableRead sid] @ snd (giffed_loop tp reg p rest active))"
  by (simp add: split_def Let_def split: sum.splits)

lemma giffed_loop_other_key:
  "k \<notin> fst ` set svcs \<Longrightarrow> fst (giffed_loop tp reg p svcs active) = Inr res \<Longrightarrow>
   map_of res k = map_of active k"
proof (induction svcs arbitrary: active)
  case Nil
  then show ?case by simp
next
  case (Cons a svcs)
  obtain sid s where a: "a = (sid, s)" by (cases a)
  from Cons.prems(1) a have k: "k \<noteq> sid" "k \<notin> fst ` set svcs" by auto
  from Cons.prems(2) Cons.IH [OF k(2)] k(1) show ?case
    unfolding a giffed_loop_fst_Cons
    by (auto simp: update_conv' split: if_splits sum.splits)
qed

lemma giffed_loop_unqualified_key:
  "\<forall>s. (k, s) \<in> set svcs \<longrightarrow> \<not> (is_available s \<and> is_enabled s) \<Longrightarrow>
   fst (giffed_loop tp reg p svcs active) = Inr res \<Longrightarrow> map_of res k = map_of active k"
proof (induction svcs arbitrary: active)
  case Nil
  then show ?case by simp
next
  case (Cons a svcs)
  obtain sid s where a: "a = (sid, s)" by (cases a)
  from Cons.prems(1) a have hd: "sid = k \<longrightarrow> \<not> (is_available s \<and> is_enabled s)"
    and rest: "\<forall>s. (k, s) \<in> set svcs \<longrightarrow> \<not> (is_available s \<and> is_enabled s)"
    by auto
  from Cons.prems(2) Cons.IH [OF rest] hd show ?case
    unfolding a giffed_loop_fst_Cons
    by (auto simp: update_conv' split: if_splits sum.splits)
qed

lemma giffed_loop_skip:
  "is_available s \<Longrightarrow> is_enabled s \<Longrightarrow> process tp reg s p = Inr meta \<Longrightarrow> \<not> truthy meta \<Longrightarrow>
   fst (giffed_loop tp reg p (xs @ (sid, s) # ys) active) = fst (giffed_loop tp reg p (xs @ ys) active)"
proof (induction xs arbitrary: active)
  case Nil
  then show ?case by (simp add: giffed_loop_fst_Cons del: giffed_loop.simps)
next
  case (Cons a xs)
  obtain sid' s' where a: "a = (sid', s')" by (cases a)
  show ?case unfolding a append_Cons giffed_loop_fst_Cons
    using Cons.IH [OF Cons.prems] by (simp split: sum.splits)
qed

lemma giffed_loop_raise:
  "\<forall>(sid', s') \<in> set xs. is_available s' \<and> is_enabled s' \<longrightarrow> (\<exists>m. process tp reg s' p = Inr m) \<Longrightarrow>
   is_available s \<Longrightarrow> is_enabled s \<Longrightarrow> process tp reg s p = Inl e \<Longrightarrow>
   fst (giffed_loop tp reg p (xs @ (sid, s) # ys) active) = Inl e \<and>
   snd (giffed_loop tp reg p (xs @ (sid, s) # ys) active) = snd (giffed_loop tp reg p (xs @ [(sid, s)]) active)"
proof (induction xs arbitrary: active)
  case Nil
  then show ?case by (simp add: giffed_loop_fst_Cons giffed_loop_snd_Cons del: giffed_loop.simps)
next
  case (Cons a xs)
  obtain sid' s' where a: "a = (sid', s')" by (cases a)
  from Cons.prems(1) have rest: "\<forall>(sid', s') \<in> set xs. is_available s' \<and> is_enabled s' \<longrightarrow> (\<exists>m. process tp reg s' p = Inr m)"
    by simp
  from Cons.prems(1) a have hd: "is_available s' \<and> is_enabled s' \<longrightarrow> (\<exists>m. process tp reg s' p = Inr m)"
    by simp
  note IH = Cons.IH [OF rest Cons.prems(2-4)]
  show ?case unfolding a append_Cons giffed_loop_fst_Cons giffed_loop_snd_Cons
    using hd IH by (auto split: sum.splits)
qed

lemma giffed_loop_returns:
  "\<forall>(sid', s') \<in> set svcs. is_available s' \<and> is_enabled s' \<longrightarrow> (\<exists>m. process tp reg s' p = Inr m) \<Longrightarrow>
   \<exists>res. fst (giffed_loop tp reg p svcs active) = Inr res"
proof (induction svcs arbitrary: active)
  case Nil
  then show ?case by simp
next
  case (Cons a svcs)
  obtain sid' s' where a: "a = (sid', s')" by (cases a)
  from Cons.prems(1) have rest: "\<forall>(sid', s') \<in> set svcs. is_available s' \<and> is_enabled s' \<longrightarrow> (\<exists>m. process tp reg s' p = Inr m)"
    by simp
  from Cons.prems(1) a have hd: "is_available s' \<and> is_enabled s' \<longrightarrow> (\<exists>m. process tp reg s' p = Inr m)"
    by simp
  show ?case unfolding a giffed_loop_fst_Cons
    using hd Cons.IH [OF rest] by (auto split: sum.splits)
qed

lemma giffed_loop_reports:
  "distinct (map fst svcs) \<Longrightarrow> (sid, s) \<in> set svcs \<Longrightarrow> is_available s \<Longrightarrow> is_enabled s \<Longrightarrow>
   process tp reg s p = Inr meta \<Longrightarrow> truthy meta \<Longrightarrow>
   fst (giffed_loop tp reg p svcs active) = Inr res \<Longrightarrow> map_of res sid = Some meta"
proof (induction svcs arbitrary: active)
  case Nil
  then show ?case by simp
next
  case (Cons a svcs)
  obtain sid' s' where a: "a = (sid', s')" by (cases a)
  show ?case
  proof (cases "(sid, s) = a")
    case True
    with Cons.prems a have "sid \<notin> fst ` set svcs" by auto
    from giffed_loop_other_key [OF this] Cons.prems True show ?thesis
      unfolding a [symmetric] True [symmetric] giffed_loop_fst_Cons
      by (auto simp: update_conv' split: sum.splits)
  next
    case False
    with Cons.prems have mem: "(sid, s) \<in> set svcs" and d: "distinct (map fst svcs)" by auto
    note IH = Cons.IH [OF d mem Cons.prems(3-6)]
    from Cons.prems(7) IH show ?thesis
      unfolding a giffed_loop_fst_Cons
      by (auto split: sum.splits if_splits)
  qed
qed

lemma giffed_loop_process_called:
  "ProcessCall sid \<in> set (snd (giffed_loop tp reg p svcs active)) \<Longrightarrow>
   \<exists>s. (sid, s) \<in> set svcs \<and> is_available s \<and> is_enabled s"
proof (induction svcs arbitrary: active)
  case Nil
  then show ?case by simp
next
  case (Cons a svcs)
  obtain sid' s' where a: "a = (sid', s')" by (cases a)
  from Cons.prems Cons.IH show ?case
    unfolding a giffed_loop_snd_Cons
    by (fastforce split: if_splits sum.splits)
qed

lemma giffed_loop_enabled_read:
  "EnabledRead sid \<in> set (snd (giffed_loop tp reg p svcs active)) \<Longrightarrow>
   \<exists>s. (sid, s) \<in> set svcs \<and> is_available s"
proof (induction svcs arbitrary: active)
  case Nil
  then show ?case by simp
next
  case (Cons a svcs)
  obtain sid' s' where a: "a = (sid', s')" by (cases a)
  from Cons.prems Cons.IH show ?case
    unfolding a giffed_loop_snd_Cons
    by (fastforce split: if_splits sum.splits)
qed

lemma split_block:
  assumes "blk @ tr = pre @ ev # suf"
  shows "(\<exists>us. blk = pre @ ev # us) \<or> (\<exists>pre2. pre = blk @ pre2 \<and> tr = pre2 @ ev # suf)"
proof -
  from assms obtain us where
    us: "blk = pre @ us \<and> us @ tr = ev # suf \<or> blk @ us = pre \<and> tr = us @ ev # suf"
    unfolding append_eq_append_conv2 by blast
  then show ?thesis
  proof
    assume h: "blk = pre @ us \<and> us @ tr = ev # suf"
    show ?thesis
    proof (cases us)
      case Nil
      with h have "pre = blk @ [] \<and> tr = [] @ ev # suf" by simp
      then show ?thesis by blast
    next
      case (Cons u us')
      with h have "blk = pre @ ev # us'" by simp
      then show ?thesis by blast
    qed
  next
    assume "blk @ us = pre \<and> tr = us @ ev # suf"
    then show ?thesis by blast
  qed
qed

lemma block_order:
  "blk = [AvailableRead x] \<or> blk = [AvailableRead x, EnabledRead x] \<or>
   blk = [AvailableRead x, EnabledRead x, ProcessCall x] \<Longrightarrow>
   blk = pre @ ev # us \<Longrightarrow>
   (ev = EnabledRead sid \<longrightarrow> (\<exists>pre'. pre = pre' @ [AvailableRead sid])) \<and>
   (ev = ProcessCall sid \<longrightarrow> (\<exists>pre'. pre = pre' @ [AvailableRead sid, EnabledRead sid]))"
  by (elim disjE) (auto simp: Cons_eq_append_conv)

lemma giffed_loop_blocks:
  "\<exists>blk tr. snd (giffed_loop tp reg p ((x, s) # rest) active) = blk @ tr \<and>
     (blk = [AvailableRead x] \<or> blk = [AvailableRead x, EnabledRead x] \<or>
      blk = [AvailableRead x, EnabledRead x, ProcessCall x]) \<and>
     (tr = [] \<or> (\<exists>active'. tr = snd (giffed_loop tp reg p rest active')))"
proof (cases "is_available s")
  case False
  then have "snd (giffed_loop tp reg p ((x, s) # rest) active) =
      [AvailableRead x] @ snd (giffed_loop tp reg p rest active)"
    by (simp add: giffed_loop_snd_Cons del: giffed_loop.simps)
  then show ?thesis by blast
next
  case True
  show ?thesis
  proof (cases "is_enabled s")
    case False
    with True have "snd (giffed_loop tp reg p ((x, s) # rest) active) =
        [AvailableRead x, EnabledRead x] @ snd (giffed_loop tp reg p rest active)"
      by (simp add: giffed_loop_snd_Cons del: giffed_loop.simps)
    then show ?thesis by blast
  next
    case enabled: True
    show ?thesis
    proof (cases "process tp reg s p")
      case (Inl e)
      with True enabled have "snd (giffed_loop tp reg p ((x, s) # rest) active) =
          [AvailableRead x, EnabledRead x, ProcessCall x] @ []"
        by (simp add: giffed_loop_snd_Cons del: giffed_loop.simps)
      then show ?thesis by blast
    next
      case (Inr meta)
      with True enabled have "snd (giffed_loop tp reg p ((x, s) # rest) active) =
          [AvailableRead x, EnabledRead x, ProcessCall x] @
          snd (giffed_loop tp reg p rest (if truthy meta then AList.update x meta active else active))"
        by (simp add: giffed_loop_snd_Cons del: giffed_loop.simps)
      then show ?thesis by blast
    qed
  qed
qed

lemma giffed_loop_order:
  "snd (giffed_loop tp reg p svcs active) = pre @ ev # suf \<Longrightarrow>
   (ev = EnabledRead sid \<longrightarrow> (\<exists>pre'. pre = pre' @ [AvailableRead sid])) \<and>
   (ev = ProcessCall sid \<longrightarrow> (\<exists>pre'. pre = pre' @ [AvailableRead sid, EnabledRead sid]))"
proof (induction svcs arbitrary: active pre)
  case Nil
  then show ?case by simp
next
  case (Cons a svcs)
  obtain x s where a: "a = (x, s)" by (cases a)
  from giffed_loop_blocks [of tp reg p x s svcs active]
  obtain blk tr where tr: "snd (giffed_loop tp reg p ((x, s) # svcs) active) = blk @ tr"
    and blk: "blk = [AvailableRead x] \<or> blk = [AvailableRead x, EnabledRead x] \<or>
              blk = [AvailableRead x, EnabledRead x, ProcessCall x]"
    and rest: "tr = [] \<or> (\<exists>active'. tr = snd (giffed_loop tp reg p svcs active'))"
    by blast
  from Cons.prems a tr have "blk @ tr = pre @ ev # suf" by simp
  from split_block [OF this] show ?case
  proof
    assume "\<exists>us. blk = pre @ ev # us"
    then obtain us where "blk = pre @ ev # us" ..
    from block_order [OF blk this] show ?thesis .
  next
    assume "\<exists>pre2. pre = blk @ pre2 \<and> tr = pre2 @ ev # suf"
    then obtain pre2 where pre: "pre = blk @ pre2" and tr2: "tr = pre2 @ ev # suf" by blast
    from tr2 rest obtain active' where "snd (giffed_loop tp reg p svcs active') = pre2 @ ev # suf"
      by auto
    from Cons.IH [OF this] pre show ?thesis by auto
  qed
qed

lemma giffed_loop_single:
  "\<forall>(sid, s) \<in> set svcs. is_available s \<and> is_enabled s \<longrightarrow> sid = a \<and> s = A \<Longrightarrow>
   process tp reg A p = Inr meta \<Longrightarrow> truthy meta \<Longrightarrow>
   fst (giffed_loop tp reg p svcs active) =
     Inr (if (a, A) \<in> set svcs \<and> is_available A \<and> is_enabled A then AList.update a meta active else active)"
proof (induction svcs arbitrary: active)
  case Nil
  then show ?case by simp
next
  case (Cons x svcs)
  obtain sid' s' where x: "x = (sid', s')" by (cases x)
  from Cons.prems(1) have rest: "\<forall>(sid, s) \<in> set svcs. is_available s \<and> is_enabled s \<longrightarrow> sid = a \<and> s = A"
    by simp
  note IH = Cons.IH [OF rest Cons.prems(2,3)]
  show ?case
  proof (cases "is_available s' \<and> is_enabled s'")
    case True
    with Cons.prems(1) x have eq: "sid' = a" "s' = A" by auto
    have "fst (giffed_loop tp reg p ((a, A) # svcs) active) =
          fst (giffed_loop tp reg p svcs (AList.update a meta active))"
      using True eq Cons.prems(2,3) by (simp add: giffed_loop_fst_Cons del: giffed_loop.simps)
    also have "\<dots> = Inr (AList.update a meta active)"
      by (simp add: IH)
    finally show ?thesis using True eq x by simp
  next
    case False
    then have ne: "(a, A) \<noteq> (sid', s') \<or> \<not> (is_available A \<and> is_enabled A)" by auto
    have "fst (giffed_loop tp reg p ((sid', s') # svcs) active) =
          fst (giffed_loop tp reg p svcs active)"
      using False by (auto simp: giffed_loop_fst_Cons simp del: giffed_loop.simps)
    then show ?thesis using ne x by (auto simp: IH)
  qed
qed

text \<open>
  C1, as the specification states it, asks that a provider whose \<open>process\<close> fails is left
  out of the result, that the others are reported, and that no exception leaves the
  broadcast. With a Dropbox upload that raises and a Tumblr post that succeeds, \<open>giffed\<close>
  answers no result at all but the exception of Dropbox, in either order of the registry.
\<close>

theorem giffed_dropbox_failure_escapes:
  "fst (giffed dropbox_down ''2014-01-01T12:00:00''
      \<lparr>services = [(''dropbox'', dropbox_ok), (''tumblr'', tumblr_ok)],
       mongo = \<lparr>coll = [], faults = []\<rparr>, flashes = []\<rparr>) = Inl (ThirdParty ''dropbox'') \<and>
   fst (giffed dropbox_down ''2014-01-01T12:00:00''
      \<lparr>services = [(''tumblr'', tumblr_ok), (''dropbox'', dropbox_ok)],
       mongo = \<lparr>coll = [], faults = []\<rparr>, flashes = []\<rparr>) = Inl (ThirdParty ''dropbox'')"
  by (simp add: giffed_def dropbox_down_def accepting_def dropbox_ok_def tumblr_ok_def
        is_available_def is_enabled_def getitem_def process_def tumblr_auth_flow_def)

text \<open>
  C1, amended: when the \<open>process\<close> call of an available and enabled provider raises, and
  no call before it in the order of the registry did, the exception leaves the loop of
  \<open>giffed\<close>: no result map is answered, and no provider after it is read or called.
  When no call raises, the loop answers a result map, and with distinct identifiers every
  available and enabled provider whose call answered a non-empty result is in it with
  that result.
\<close>

theorem giffed_loop_failure_or_report:
  "((\<forall>(sid', s') \<in> set xs. is_available s' \<and> is_enabled s' \<longrightarrow> (\<exists>m. process tp reg s' p = Inr m)) \<and>
    is_available s \<and> is_enabled s \<and> process tp reg s p = Inl e \<longrightarrow>
      fst (giffed_loop tp reg p (xs @ (sid, s) # ys) active) = Inl e \<and>
      snd (giffed_loop tp reg p (xs @ (sid, s) # ys) active) =
        snd (giffed_loop tp reg p (xs @ [(sid, s)]) active)) \<and>
   ((\<forall>(sid', s') \<in> set svcs. is_available s' \<and> is_enabled s' \<longrightarrow> (\<exists>m. process tp reg s' p = Inr m)) \<longrightarrow>
      (\<exists>res. fst (giffed_loop tp reg p svcs active) = Inr res \<and>
         (distinct (map fst svcs) \<longrightarrow>
            (\<forall>(sid', s') \<in> set svcs. \<forall>m.
               is_available s' \<and> is_enabled s' \<and> process tp reg s' p = Inr m \<and> truthy m \<longrightarrow>
               map_of res sid' = Some m))))"
proof (intro conjI impI)
  assume h: "(\<forall>(sid', s') \<in> set xs. is_available s' \<and> is_enabled s' \<longrightarrow> (\<exists>m. process tp reg s' p = Inr m)) \<and>
    is_available s \<and> is_enabled s \<and> process tp reg s p = Inl e"
  then show "fst (giffed_loop tp reg p (xs @ (sid, s) # ys) active) = Inl e"
    using giffed_loop_raise [of xs tp reg p s e sid ys active] by blast
  from h show "snd (giffed_loop tp reg p (xs @ (sid, s) # ys) active) =
        snd (giffed_loop tp reg p (xs @ [(sid, s)]) active)"
    using giffed_loop_raise [of xs tp reg p s e sid ys active] by blast
next
  assume h: "\<forall>(sid', s') \<in> set svcs. is_available s' \<and> is_enabled s' \<longrightarrow> (\<exists>m. process tp reg s' p = Inr m)"
  from giffed_loop_returns [OF h] obtain res where
    res: "fst (giffed_loop tp reg p svcs active) = Inr res" ..
  have "distinct (map fst svcs) \<longrightarrow>
            (\<forall>(sid', s') \<in> set svcs. \<forall>m.
               is_available s' \<and> is_enabled s' \<and> process tp reg s' p = Inr m \<and> truthy m \<longrightarrow>
               map_of res sid' = Some m)"
    using giffed_loop_reports [where svcs = svcs and tp = tp and reg = reg and p = p
        and active = active and res = res] res
    by blast
  with res show "\<exists>res. fst (giffed_loop tp reg p svcs active) = Inr res \<and>
         (distinct (map fst svcs) \<longrightarrow>
            (\<forall>(sid', s') \<in> set svcs. \<forall>m.
               is_available s' \<and> is_enabled s' \<and> process tp reg s' p = Inr m \<and> truthy m \<longrightarrow>
               map_of res sid' = Some m))"
    by blast
qed

theorem giffed_loop_failure_or_report_witness:
  "fst (giffed_loop dropbox_down [] noon [(''tumblr'', tumblr_unauthorized), (''dropbox'', dropbox_ok)] [])
     = Inl (ThirdParty ''dropbox'') \<and>
   snd (giffed_loop dropbox_down [] noon
          [(''tumblr'', tumblr_unauthorized), (''dropbox'', dropbox_ok), (''other'', dropbox_ok)] [])
     = snd (giffed_loop dropbox_down [] noon
          [(''tumblr'', tumblr_unauthorized), (''dropbox'', dropbox_ok)] []) \<and>
   map_of (projr (fst (giffed_loop accepting [] noon [(''dropbox'', dropbox_ok)] []))) ''dropbox''
     = Some (PDict [(''path'', PStr ''x.txt'')])"
  using giffed_loop_failure_or_report [of "[(''tumblr'', tumblr_unauthorized)]" dropbox_down "[]" noon
      dropbox_ok "ThirdParty ''dropbox''" "''dropbox''" "[]" "[]" "[(''dropbox'', dropbox_ok)]"]
    giffed_loop_failure_or_report [of "[(''tumblr'', tumblr_unauthorized)]" dropbox_down "[]" noon
      dropbox_ok "ThirdParty ''dropbox''" "''dropbox''" "[(''other'', dropbox_ok)]" "[]" "[]"]
    giffed_loop_failure_or_report [of "[]" accepting "[]" noon
      dropbox_ok "ThirdParty ''dropbox''" "''dropbox''" "[]" "[]" "[(''dropbox'', dropbox_ok)]"]
  by (simp add: dropbox_down_def accepting_def dropbox_ok_def tumblr_unauthorized_def noon_def
        is_available_def is_enabled_def getitem_def process_def)

text \<open>
  C4, as the specification states it, asks that in the scenario of the providers A
  (available, enabled), B (available, not enabled) and C (not available) the result map
  holds exactly the key of A. When the submission of A answers an empty result, the
  result map is empty; when it raises, there is no result map.
\<close>

theorem giffed_scenario_without_entry_of_A:
  "is_available dropbox_ok \<and> is_enabled dropbox_ok \<and>
   is_available tumblr_unauthorized \<and> \<not> is_enabled tumblr_unauthorized \<and>
   \<not> is_available dropbox_keyless \<and>
   fst (giffed_loop silent
          [(''dropbox'', dropbox_ok), (''tumblr'', tumblr_unauthorized), (''keyless'', dropbox_keyless)]
          noon
          [(''dropbox'', dropbox_ok), (''tumblr'', tumblr_unauthorized), (''keyless'', dropbox_keyless)]
          []) = Inr [] \<and>
   fst (giffed_loop dropbox_down
          [(''dropbox'', dropbox_ok), (''tumblr'', tumblr_unauthorized), (''keyless'', dropbox_keyless)]
          noon
          [(''dropbox'', dropbox_ok), (''tumblr'', tumblr_unauthorized), (''keyless'', dropbox_keyless)]
          []) = Inl (ThirdParty ''dropbox'')"
  by (simp add: silent_def dropbox_down_def accepting_def dropbox_ok_def tumblr_unauthorized_def
        dropbox_keyless_def noon_def is_available_def is_enabled_def getitem_def process_def)

text \<open>
  C4, amended: the loop of \<open>giffed\<close> calls \<open>process\<close> of a provider only when the provider is in the
  registry with \<open>is_available\<close> and \<open>is_enabled\<close> both true; it reads \<open>is_enabled\<close> only of
  a provider whose \<open>is_available\<close> was true; in the trace, the read of \<open>is_enabled\<close>
  follows the read of \<open>is_available\<close> of the same provider directly, and the call of
  \<open>process\<close> follows the two reads directly. In the scenario of a registry that holds
  exactly A (available, enabled), B (available, not enabled) and C (not available), in
  any order, a result map of the loop has no key but that of A, and it is exactly the
  entry of A when the submission of A answers a non-empty result.
\<close>

theorem giffed_loop_guard:
  "(ProcessCall sid \<in> set (snd (giffed_loop tp reg p svcs active)) \<longrightarrow>
      (\<exists>s. (sid, s) \<in> set svcs \<and> is_available s \<and> is_enabled s)) \<and>
   (EnabledRead sid \<in> set (snd (giffed_loop tp reg p svcs active)) \<longrightarrow>
      (\<exists>s. (sid, s) \<in> set svcs \<and> is_available s)) \<and>
   (\<forall>pre suf. snd (giffed_loop tp reg p svcs active) = pre @ EnabledRead sid # suf \<longrightarrow>
      (\<exists>pre'. pre = pre' @ [AvailableRead sid])) \<and>
   (\<forall>pre suf. snd (giffed_loop tp reg p svcs active) = pre @ ProcessCall sid # suf \<longrightarrow>
      (\<exists>pre'. pre = pre' @ [AvailableRead sid, EnabledRead sid])) \<and>
   (set svcs = {(a, A), (b, B), (c, C)} \<and> is_available A \<and> is_enabled A \<and>
    is_available B \<and> \<not> is_enabled B \<and> \<not> is_available C \<longrightarrow>
      (\<forall>res k. fst (giffed_loop tp reg p svcs []) = Inr res \<and> k \<noteq> a \<longrightarrow> map_of res k = None) \<and>
      (process tp reg A p = Inr meta \<and> truthy meta \<longrightarrow>
         fst (giffed_loop tp reg p svcs []) = Inr [(a, meta)]))"
proof (intro conjI impI allI)
  assume "ProcessCall sid \<in> set (snd (giffed_loop tp reg p svcs active))"
  then show "\<exists>s. (sid, s) \<in> set svcs \<and> is_available s \<and> is_enabled s"
    by (rule giffed_loop_process_called)
next
  assume "EnabledRead sid \<in> set (snd (giffed_loop tp reg p svcs active))"
  then show "\<exists>s. (sid, s) \<in> set svcs \<and> is_available s"
    by (rule giffed_loop_enabled_read)
next
  fix pre suf
  assume "snd (giffed_loop tp reg p svcs active) = pre @ EnabledRead sid # suf"
  from giffed_loop_order [OF this, of sid] show "\<exists>pre'. pre = pre' @ [AvailableRead sid]"
    by simp
next
  fix pre suf
  assume "snd (giffed_loop tp reg p svcs active) = pre @ ProcessCall sid # suf"
  from giffed_loop_order [OF this, of sid]
  show "\<exists>pre'. pre = pre' @ [AvailableRead sid, EnabledRead sid]"
    by simp
next
  fix res k
  assume h: "set svcs = {(a, A), (b, B), (c, C)} \<and> is_available A \<and> is_enabled A \<and>
    is_available B \<and> \<not> is_enabled B \<and> \<not> is_available C"
    and r: "fst (giffed_loop tp reg p svcs []) = Inr res \<and> k \<noteq> a"
  then have "\<forall>s. (k, s) \<in> set svcs \<longrightarrow> \<not> (is_available s \<and> is_enabled s)"
    by auto
  from giffed_loop_unqualified_key [OF this, of tp reg p "[]" res] r
  show "map_of res k = None"
    by simp
next
  assume h: "set svcs = {(a, A), (b, B), (c, C)} \<and> is_available A \<and> is_enabled A \<and>
    is_available B \<and> \<not> is_enabled B \<and> \<not> is_available C"
    and ok: "process tp reg A p = Inr meta \<and> truthy meta"
  then have only: "\<forall>(sid, s) \<in> set svcs. is_available s \<and> is_enabled s \<longrightarrow> sid = a \<and> s = A"
    by auto
  from h have "(a, A) \<in> set svcs \<and> is_available A \<and> is_enabled A" by simp
  with giffed_loop_single [OF only, of tp reg p meta "[]"] ok
  show "fst (giffed_loop tp reg p svcs []) = Inr [(a, meta)]"
    by simp
qed

theorem giffed_loop_guard_witness:
  "giffed accepting ''2014-01-01T12:00:00''
     \<lparr>services = [(''dropbox'', dropbox_ok), (''tumblr'', tumblr_unauthorized),
                  (''keyless'', dropbox_keyless)],
      mongo = \<lparr>coll = [], faults = []\<rparr>, flashes = []\<rparr>
   = (Inr (Jsonify [(''active_services'',
                     PDict [(''dropbox'', PDict [(''path'', PStr ''2014-01-01T12:00:00.txt'')])])]),
      [AvailableRead ''dropbox'', EnabledRead ''dropbox'', ProcessCall ''dropbox'',
       AvailableRead ''tumblr'', EnabledRead ''tumblr'', AvailableRead ''keyless''])"
  using giffed_loop_guard [where sid = "''dropbox''" and tp = accepting
      and reg = "[(''dropbox'', dropbox_ok), (''tumblr'', tumblr_unauthorized),
                  (''keyless'', dropbox_keyless)]"
      and p = "\<lparr>filename = ''2014-01-01T12:00:00.txt'', data = ''2014-01-01T12:00:00'',
                 timestamp = ''2014-01-01T12:00:00''\<rparr>"
      and svcs = "[(''dropbox'', dropbox_ok), (''tumblr'', tumblr_unauthorized),
                  (''keyless'', dropbox_keyless)]"
      and active = "[]" and a = "''dropbox''" and A = dropbox_ok
      and b = "''tumblr''" and B = tumblr_unauthorized
      and c = "''keyless''" and C = dropbox_keyless
      and meta = "PDict [(''path'', PStr ''2014-01-01T12:00:00.txt'')]"]
  by (simp add: giffed_def accepting_def dropbox_ok_def tumblr_unauthorized_def
        dropbox_keyless_def is_available_def is_enabled_def getitem_def process_def)

text \<open>
  C8: when the \<open>process\<close> call of an available and enabled provider answers a result that
  is empty (falsy), the loop of \<open>giffed\<close> answers what it answers on the registry without
  that provider; when no other entry of the registry has its identifier, the result map
  has for the identifier what it had before the loop (nothing, as \<open>giffed\<close> starts from
  the empty map).
\<close>

theorem giffed_loop_empty_result_omitted:
  "is_available s \<and> is_enabled s \<and> process tp reg s p = Inr meta \<and> \<not> truthy meta \<longrightarrow>
     fst (giffed_loop tp reg p (xs @ (sid, s) # ys) active) =
       fst (giffed_loop tp reg p (xs @ ys) active) \<and>
     (sid \<notin> fst ` set (xs @ ys) \<and>
      fst (giffed_loop tp reg p (xs @ (sid, s) # ys) active) = Inr res \<longrightarrow>
        map_of res sid = map_of active sid)"
  using giffed_loop_skip [of s tp reg p meta xs sid ys active]
    giffed_loop_other_key [of sid "xs @ ys" tp reg p active res]
  by auto

theorem giffed_loop_empty_result_omitted_witness:
  "fst (giffed silent ''2014-01-01T12:00:00''
     \<lparr>services = [(''dropbox'', dropbox_ok), (''tumblr'', tumblr_ok)],
      mongo = \<lparr>coll = [], faults = []\<rparr>, flashes = []\<rparr>)
   = Inr (Jsonify [(''active_services'',
            PDict [(''tumblr'', PDict [(''meta'', PDict [(''status'', PStr ''201'')])])])]) \<and>
   fst (giffed_loop silent [(''dropbox'', dropbox_ok), (''tumblr'', tumblr_ok)] noon
          [(''dropbox'', dropbox_ok), (''tumblr'', tumblr_ok)] [])
   = fst (giffed_loop silent [(''dropbox'', dropbox_ok), (''tumblr'', tumblr_ok)] noon
          [(''tumblr'', tumblr_ok)] [])"
  using giffed_loop_empty_result_omitted [where s = dropbox_ok and tp = silent
      and reg = "[(''dropbox'', dropbox_ok), (''tumblr'', tumblr_ok)]" and p = noon
      and meta = "PDict []" and xs = "[]" and sid = "''dropbox''"
      and ys = "[(''tumblr'', tumblr_ok)]" and active = "[]"
      and res = "[(''tumblr'', PDict [(''meta'', PDict [(''status'', PStr ''201'')])])]"]
  by (simp add: giffed_def silent_def accepting_def dropbox_ok_def tumblr_ok_def noon_def
        is_available_def is_enabled_def getitem_def process_def tumblr_auth_flow_def)

section \<open>The store under successful writes\<close>

lemma quiet_not_raises: "True \<notin> set (faults m) \<Longrightarrow> \<not> raises m"
  by (cases "faults m") (auto simp: raises_def)

lemma quiet_tick: "True \<notin> set (faults m) \<Longrightarrow> True \<notin> set (faults (tick m))"
  by (cases "faults m") (auto simp: tick_def)

lemma find_replace:
  "P d' \<Longrightarrow> (\<And>x. x \<in> set ds \<Longrightarrow> P x \<Longrightarrow> Q x) \<Longrightarrow> list_ex Q ds \<Longrightarrow>
   find P (map (\<lambda>x. if Q x then d' else x) ds) = Some d'"
  by (induction ds) auto

lemma find_after:
  "find P (xs @ ys) = (case find P xs of None \<Rightarrow> find P ys | Some x \<Rightarrow> Some x)"
  by (induction xs) auto

lemma find_upsert_id:
  "map_of d' ''_id'' = Some i \<Longrightarrow> find (matches [(''_id'', i)]) (upsert i d' ds) = Some d'"
proof (cases "list_ex (\<lambda>x. map_of x ''_id'' = Some i) ds")
  case True
  assume d': "map_of d' ''_id'' = Some i"
  have "find (matches [(''_id'', i)]) (map (\<lambda>x. if map_of x ''_id'' = Some i then d' else x) ds) = Some d'"
    by (rule find_replace) (use d' True in \<open>auto simp: matches_def\<close>)
  with True show ?thesis by (simp add: upsert_def)
next
  case False
  assume d': "map_of d' ''_id'' = Some i"
  from False have "find (matches [(''_id'', i)]) ds = None"
    by (auto simp: find_None_iff matches_def list_ex_iff)
  with False d' show ?thesis by (simp add: upsert_def matches_def find_after)
qed

lemma find_upsert_none:
  "find P ds = None \<Longrightarrow> P d' \<Longrightarrow> find P (upsert i d' ds) = Some d'"
proof (cases "list_ex (\<lambda>x. map_of x ''_id'' = Some i) ds")
  case True
  assume h: "find P ds = None" "P d'"
  have "find P (map (\<lambda>x. if map_of x ''_id'' = Some i then d' else x) ds) = Some d'"
    by (rule find_replace) (use h True in \<open>auto simp: find_None_iff\<close>)
  with True show ?thesis by (simp add: upsert_def)
next
  case False
  assume h: "find P ds = None" "P d'"
  with False show ?thesis by (simp add: upsert_def find_after)
qed

lemma find_upsert_some:
  "find P ds = Some d \<Longrightarrow> map_of d ''_id'' = Some i \<Longrightarrow> P d' \<Longrightarrow>
   find P (upsert i d' ds) = Some d'"
proof (induction ds)
  case Nil
  then show ?case by simp
next
  case (Cons x ds)
  show ?case
  proof (cases "P x")
    case True
    with Cons.prems have "x = d" by simp
    with Cons.prems True show ?thesis by (simp add: upsert_def)
  next
    case False
    with Cons.prems have f: "find P ds = Some d" by simp
    then have "d \<in> set ds" by (auto simp: find_Some_iff in_set_conv_nth)
    with Cons.prems(2) have ex: "list_ex (\<lambda>x. map_of x ''_id'' = Some i) ds"
      by (auto simp: list_ex_iff)
    from Cons.IH [OF f Cons.prems(2,3)] ex have
      "find P (map (\<lambda>x. if map_of x ''_id'' = Some i then d' else x) ds) = Some d'"
      by (simp add: upsert_def)
    with ex False Cons.prems(3) show ?thesis by (simp add: upsert_def)
  qed
qed

lemma save_ok:
  assumes "\<not> raises m"
  obtains i d' where "save d m = (Inr (i, d'), (tick m)\<lparr>coll := upsert i d' (coll m)\<rparr>)"
    and "map_of d' ''_id'' = Some i"
    and "\<forall>k. k \<noteq> ''_id'' \<longrightarrow> map_of d' k = map_of d k"
    and "\<forall>j. map_of d ''_id'' = Some j \<longrightarrow> d' = d \<and> i = j"
proof (cases "map_of d ''_id''")
  case None
  show thesis
    by (rule that [of "PId (new_oid (coll m))" "AList.update ''_id'' (PId (new_oid (coll m))) d"])
       (use assms None in \<open>simp_all add: save_def Let_def update_conv'\<close>)
next
  case (Some j)
  show thesis
    by (rule that [of j d]) (use assms Some in \<open>simp_all add: save_def Let_def\<close>)
qed

lemma setitem_ok:
  assumes "True \<notin> set (faults m)"
  obtains cfg i m' where "setitem key v s m = (Inr (), s\<lparr>config := cfg\<rparr>, m')"
    and "True \<notin> set (faults m')" and "map_of cfg ''_id'' = Some i"
    and "\<forall>k. k \<noteq> ''_id'' \<longrightarrow> map_of cfg k = ((map_of (config s))(key \<mapsto> v)) k"
    and "find (matches [(''_id'', i)]) (coll m') = Some cfg"
    and "coll m' = upsert i cfg (coll m)"
    and "\<forall>j. map_of (config s) ''_id'' = Some j \<and> key \<noteq> ''_id'' \<longrightarrow> i = j"
proof -
  from assms have nr: "\<not> raises m" by (rule quiet_not_raises)
  obtain i d' where
    sv: "save (AList.update key v (config s)) m = (Inr (i, d'), (tick m)\<lparr>coll := upsert i d' (coll m)\<rparr>)"
    and id: "map_of d' ''_id'' = Some i"
    and others: "\<forall>k. k \<noteq> ''_id'' \<longrightarrow> map_of d' k = map_of (AList.update key v (config s)) k"
    and same: "\<forall>j. map_of (AList.update key v (config s)) ''_id'' = Some j \<longrightarrow> d' = AList.update key v (config s) \<and> i = j"
    by (rule save_ok [OF nr, of "AList.update key v (config s)"])
  have 1: "setitem key v s m = (Inr (), s\<lparr>config := d'\<rparr>, (tick m)\<lparr>coll := upsert i d' (coll m)\<rparr>)"
    by (simp add: setitem_def sv)
  have 2: "True \<notin> set (faults ((tick m)\<lparr>coll := upsert i d' (coll m)\<rparr>))"
    using quiet_tick [OF assms] by simp
  have 3: "\<forall>k. k \<noteq> ''_id'' \<longrightarrow> map_of d' k = ((map_of (config s))(key \<mapsto> v)) k"
    using others by (simp add: update_conv')
  have 4: "find (matches [(''_id'', i)]) (coll ((tick m)\<lparr>coll := upsert i d' (coll m)\<rparr>)) = Some d'"
    using find_upsert_id [OF id] by simp
  have 5: "\<forall>j. map_of (config s) ''_id'' = Some j \<and> key \<noteq> ''_id'' \<longrightarrow> i = j"
    using same by (auto simp: update_conv')
  have 6: "coll ((tick m)\<lparr>coll := upsert i d' (coll m)\<rparr>) = upsert i d' (coll m)"
    by simp
  show thesis
    by (rule that [OF 1 2 id 3 4 6 5])
qed

lemma delitem_ok:
  assumes "True \<notin> set (faults m)" and "map_of (config s) ''_id'' = Some i" and "key \<noteq> ''_id''"
    and "find (matches [(''_id'', i)]) (coll m) = Some (config s)"
  obtains cfg m' where "delitem key s m = (Inr (), s\<lparr>config := cfg\<rparr>, m')"
    and "True \<notin> set (faults m')" and "map_of cfg = (map_of (config s))(key := None)"
    and "find (matches [(''_id'', i)]) (coll m') = Some cfg"
proof (cases "map_of (config s) key")
  case None
  then have 1: "delitem key s m = (Inr (), s\<lparr>config := config s\<rparr>, m)"
    by (simp add: delitem_def)
  from None have 2: "map_of (config s) = (map_of (config s))(key := None)"
    by (simp add: fun_upd_idem)
  show thesis
    by (rule that [OF 1 assms(1) 2 assms(4)])
next
  case (Some old)
  from assms(1) have nr: "\<not> raises m" by (rule quiet_not_raises)
  from assms(2,3) have id0: "map_of (AList.delete key (config s)) ''_id'' = Some i"
    by (simp add: delete_conv')
  obtain i' d' where "save (AList.delete key (config s)) m = (Inr (i', d'), (tick m)\<lparr>coll := upsert i' d' (coll m)\<rparr>)"
    and "map_of d' ''_id'' = Some i'"
    and "\<forall>k. k \<noteq> ''_id'' \<longrightarrow> map_of d' k = map_of (AList.delete key (config s)) k"
    and "\<forall>j. map_of (AList.delete key (config s)) ''_id'' = Some j \<longrightarrow> d' = AList.delete key (config s) \<and> i' = j"
    by (rule save_ok [OF nr, of "AList.delete key (config s)"])
  with id0 have
    sv: "save (AList.delete key (config s)) m =
          (Inr (i, AList.delete key (config s)), (tick m)\<lparr>coll := upsert i (AList.delete key (config s)) (coll m)\<rparr>)"
    by simp
  have 1: "delitem key s m = (Inr (), s\<lparr>config := AList.delete key (config s)\<rparr>,
        (tick m)\<lparr>coll := upsert i (AList.delete key (config s)) (coll m)\<rparr>)"
    using Some by (simp add: delitem_def sv Let_def)
  have 2: "True \<notin> set (faults ((tick m)\<lparr>coll := upsert i (AList.delete key (config s)) (coll m)\<rparr>))"
    using quiet_tick [OF assms(1)] by simp
  have 3: "find (matches [(''_id'', i)])
        (coll ((tick m)\<lparr>coll := upsert i (AList.delete key (config s)) (coll m)\<rparr>)) =
        Some (AList.delete key (config s))"
    using find_upsert_id [OF id0] by simp
  have 4: "map_of (AList.delete key (config s)) = (map_of (config s))(key := None)"
    by (rule delete_conv')
  show thesis
    by (rule that [OF 1 2 4 3])
qed

lemma register_ok:
  assumes "True \<notin> set (faults m)"
  obtains cfg m1 where "register sid m = (Inr cfg, m1)" and "True \<notin> set (faults m1)"
    and "find (matches [(''service_id'', PStr sid)]) (coll m1) = Some cfg"
    and "(\<forall>d \<in> set (coll m). map_of d ''_id'' \<noteq> None) \<longrightarrow> map_of cfg ''_id'' \<noteq> None"
proof -
  let ?flt = "[(''service_id'', PStr sid)]"
  from assms have nr: "\<not> raises m" by (rule quiet_not_raises)
  have q1: "True \<notin> set (faults (tick m))" using assms by (rule quiet_tick)
  then have nr1: "\<not> raises (tick m)" by (rule quiet_not_raises)
  show thesis
  proof (cases "find (matches ?flt) (coll m)")
    case (Some d)
    then have 1: "register sid m = (Inr d, tick m)"
      using nr by (simp add: register_def find_one_def)
    have 2: "find (matches ?flt) (coll (tick m)) = Some d"
      using Some by (simp add: tick_def)
    from Some have "d \<in> set (coll m)"
      by (auto simp: find_Some_iff in_set_conv_nth)
    then have 3: "(\<forall>d \<in> set (coll m). map_of d ''_id'' \<noteq> None) \<longrightarrow> map_of d ''_id'' \<noteq> None"
      by blast
    show ?thesis by (rule that [OF 1 q1 2 3])
  next
    case None
    obtain i d' where
      sv: "save ?flt (tick m) = (Inr (i, d'), (tick (tick m))\<lparr>coll := upsert i d' (coll (tick m))\<rparr>)"
      and id: "map_of d' ''_id'' = Some i"
      and others: "\<forall>k. k \<noteq> ''_id'' \<longrightarrow> map_of d' k = map_of ?flt k"
      and "\<forall>j. map_of ?flt ''_id'' = Some j \<longrightarrow> d' = ?flt \<and> i = j"
      by (rule save_ok [OF nr1, of ?flt])
    let ?m2 = "(tick (tick m))\<lparr>coll := upsert i d' (coll (tick m))\<rparr>"
    have q2: "True \<notin> set (faults ?m2)" using quiet_tick [OF q1] by simp
    then have nr2: "\<not> raises ?m2" by (rule quiet_not_raises)
    have f2: "find (matches [(''_id'', i)]) (coll ?m2) = Some d'"
      using find_upsert_id [OF id] by simp
    have reg: "register sid m = (Inr d', tick ?m2)"
      using nr None nr2 f2 by (simp add: register_def find_one_def sv)
    have q3: "True \<notin> set (faults (tick ?m2))" using q2 by (rule quiet_tick)
    have m: "matches ?flt d'" using others by (simp add: matches_def)
    have "find (matches ?flt) (coll (tick m)) = None" using None by (simp add: tick_def)
    from find_upsert_none [OF this m, of i]
    have 2: "find (matches ?flt) (coll (tick ?m2)) = Some d'" by (simp add: tick_def)
    have 3: "(\<forall>d \<in> set (coll m). map_of d ''_id'' \<noteq> None) \<longrightarrow> map_of d' ''_id'' \<noteq> None"
      using id by simp
    show ?thesis by (rule that [OF reg q3 2 3])
  qed
qed

lemma find_one_ok:
  "True \<notin> set (faults m) \<Longrightarrow> fst (find_one flt m) = Inr (find (matches flt) (coll m))"
  by (simp add: find_one_def quiet_not_raises)

section \<open>The token exchange of Tumblr and the token of the environment\<close>

lemma tumblr_callback_success:
  assumes tok: "str_truthy (map_of args ''oauth_token'')"
    and ver: "map_of args ''oauth_verifier'' = Some v" "v \<noteq> []"
    and ts: "map_of (services st) ''tumblr'' = Some ts"
    and flow: "tumblr_auth_flow (services st) = Inr flow"
    and ex: "get_access_token tp flow (getitem ts ''request_token'') (getitem ts ''request_secret'') v
              = Inr (tok, sec)"
    and quiet: "True \<notin> set (faults (mongo st))"
  shows "\<exists>st' ts' i. tumblr_callback tp args st = (Inr (Redirect ''/settings''), st') \<and>
     map_of (services st') ''tumblr'' = Some ts' \<and>
     map_of (config ts') ''request_token'' = None \<and>
     map_of (config ts') ''request_secret'' = None \<and>
     map_of (config ts') ''access_token'' = Some (PList [PStr tok, PStr sec]) \<and>
     map_of (config ts') ''_id'' = Some i \<and>
     fst (find_one [(''_id'', i)] (mongo st')) = Inr (Some (config ts'))"
proof -
  obtain cfg1 i m1 where
    set1: "setitem ''access_token'' (PList [PStr tok, PStr sec]) ts (mongo st) = (Inr (), ts\<lparr>config := cfg1\<rparr>, m1)"
    and q1: "True \<notin> set (faults m1)" and id1: "map_of cfg1 ''_id'' = Some i"
    and vals1: "\<forall>k. k \<noteq> ''_id'' \<longrightarrow>
        map_of cfg1 k = ((map_of (config ts))(''access_token'' \<mapsto> PList [PStr tok, PStr sec])) k"
    and f1: "find (matches [(''_id'', i)]) (coll m1) = Some cfg1"
    and "coll m1 = upsert i cfg1 (coll (mongo st))"
    and "\<forall>j. map_of (config ts) ''_id'' = Some j \<and> ''access_token'' \<noteq> ''_id'' \<longrightarrow> i = j"
    by (rule setitem_ok [OF quiet])
  have at1: "map_of cfg1 ''access_token'' = Some (PList [PStr tok, PStr sec])"
    using vals1 by simp
  obtain cfg2 m2 where
    del2: "delitem ''request_token'' (ts\<lparr>config := cfg1\<rparr>) m1 = (Inr (), ts\<lparr>config := cfg1\<rparr>\<lparr>config := cfg2\<rparr>, m2)"
    and q2: "True \<notin> set (faults m2)"
    and map2: "map_of cfg2 = (map_of (config (ts\<lparr>config := cfg1\<rparr>)))(''request_token'' := None)"
    and f2: "find (matches [(''_id'', i)]) (coll m2) = Some cfg2"
    by (rule delitem_ok [OF q1, of "ts\<lparr>config := cfg1\<rparr>" i "''request_token''"])
       (use id1 f1 in simp_all)
  have id2: "map_of cfg2 ''_id'' = Some i" and at2: "map_of cfg2 ''access_token'' = Some (PList [PStr tok, PStr sec])"
    and rt2: "map_of cfg2 ''request_token'' = None"
    using map2 id1 at1 by simp_all
  obtain cfg3 m3 where
    del3: "delitem ''request_secret'' (ts\<lparr>config := cfg2\<rparr>) m2 = (Inr (), ts\<lparr>config := cfg2\<rparr>\<lparr>config := cfg3\<rparr>, m3)"
    and q3: "True \<notin> set (faults m3)"
    and map3: "map_of cfg3 = (map_of (config (ts\<lparr>config := cfg2\<rparr>)))(''request_secret'' := None)"
    and f3: "find (matches [(''_id'', i)]) (coll m3) = Some cfg3"
    by (rule delitem_ok [OF q2, of "ts\<lparr>config := cfg2\<rparr>" i "''request_secret''"])
       (use id2 f2 in simp_all)
  have fin: "map_of cfg3 ''_id'' = Some i" "map_of cfg3 ''access_token'' = Some (PList [PStr tok, PStr sec])"
    "map_of cfg3 ''request_token'' = None" "map_of cfg3 ''request_secret'' = None"
    using map3 id2 at2 rt2 by simp_all
  let ?st' = "put_service ''tumblr'' (ts\<lparr>config := cfg3\<rparr>) m3 st"
  have run: "tumblr_callback tp args st = (Inr (Redirect ''/settings''), ?st')"
    using tok ver ts flow ex set1 del2 del3
    by (simp add: tumblr_callback_def redirect_to_def url_for_settings)
  have reg: "map_of (services ?st') ''tumblr'' = Some (ts\<lparr>config := cfg3\<rparr>)"
    by (simp add: put_service_def update_conv')
  have store: "fst (find_one [(''_id'', i)] (mongo ?st')) = Inr (Some (config (ts\<lparr>config := cfg3\<rparr>)))"
    using find_one_ok [OF q3, of "[(''_id'', i)]"] f3 by (simp add: put_service_def)
  from fin have fin': "map_of (config (ts\<lparr>config := cfg3\<rparr>)) ''request_token'' = None"
    "map_of (config (ts\<lparr>config := cfg3\<rparr>)) ''request_secret'' = None"
    "map_of (config (ts\<lparr>config := cfg3\<rparr>)) ''access_token'' = Some (PList [PStr tok, PStr sec])"
    "map_of (config (ts\<lparr>config := cfg3\<rparr>)) ''_id'' = Some i"
    by simp_all
  show ?thesis
    by (intro exI conjI) (rule run, rule reg, rule fin', rule fin', rule fin', rule fin', rule store)
qed

lemma tumblr_callback_failure:
  assumes tok: "str_truthy (map_of args ''oauth_token'')"
    and ver: "map_of args ''oauth_verifier'' = Some v" "v \<noteq> []"
    and ts: "map_of (services st) ''tumblr'' = Some ts"
    and flow: "tumblr_auth_flow (services st) = Inr flow"
    and ex: "get_access_token tp flow (getitem ts ''request_token'') (getitem ts ''request_secret'') v
              = Inl e"
  shows "tumblr_callback tp args st = (Inl e, st)"
  using assms by (simp add: tumblr_callback_def)

lemma DropboxService_init_token:
  assumes env: "map_of environ ''DROPBOX_TOKEN'' = Some t" "t \<noteq> []"
    and quiet: "True \<notin> set (faults m)"
  shows "\<exists>s m' i. DropboxService_init environ m = (Inr s, m') \<and> kind s = Dropbox \<and>
     map_of (config s) ''access_token'' = Some (PStr t) \<and> is_enabled s \<and>
     map_of (config s) ''_id'' = Some i \<and>
     fst (find_one [(''_id'', i)] m') = Inr (Some (config s)) \<and>
     ((\<forall>d \<in> set (coll m). map_of d ''_id'' \<noteq> None) \<longrightarrow>
        fst (find_one [(''service_id'', PStr ''dropbox'')] m') = Inr (Some (config s)))"
proof -
  let ?flt = "[(''service_id'', PStr ''dropbox'')]"
  obtain cfg m1 where reg: "register ''dropbox'' m = (Inr cfg, m1)"
    and q1: "True \<notin> set (faults m1)"
    and f1: "find (matches ?flt) (coll m1) = Some cfg"
    and wf1: "(\<forall>d \<in> set (coll m). map_of d ''_id'' \<noteq> None) \<longrightarrow> map_of cfg ''_id'' \<noteq> None"
    by (rule register_ok [OF quiet])
  let ?s = "\<lparr>kind = Dropbox, client_key = map_of environ ''DROPBOX_KEY'',
             client_secret = map_of environ ''DROPBOX_SECRET'', hostname = None, config = cfg\<rparr>"
  obtain cfg2 i m2 where
    set2: "setitem ''access_token'' (PStr t) ?s m1 = (Inr (), ?s\<lparr>config := cfg2\<rparr>, m2)"
    and q2: "True \<notin> set (faults m2)" and id2: "map_of cfg2 ''_id'' = Some i"
    and vals2: "\<forall>k. k \<noteq> ''_id'' \<longrightarrow>
        map_of cfg2 k = ((map_of (config ?s))(''access_token'' \<mapsto> PStr t)) k"
    and f2: "find (matches [(''_id'', i)]) (coll m2) = Some cfg2"
    and c2: "coll m2 = upsert i cfg2 (coll m1)"
    and same: "\<forall>j. map_of (config ?s) ''_id'' = Some j \<and> ''access_token'' \<noteq> ''_id'' \<longrightarrow> i = j"
    by (rule setitem_ok [OF q1])
  let ?s' = "?s\<lparr>config := cfg2\<rparr>"
  have run: "DropboxService_init environ m = (Inr ?s', m2)"
    using env reg set2 by (simp add: DropboxService_init_def)
  have k: "kind ?s' = Dropbox" by simp
  have at: "map_of (config ?s') ''access_token'' = Some (PStr t)"
    using vals2 by simp
  have en: "is_enabled ?s'"
    using at env(2) by (simp add: is_enabled_def getitem_def)
  have id: "map_of (config ?s') ''_id'' = Some i" using id2 by simp
  have byid: "fst (find_one [(''_id'', i)] m2) = Inr (Some (config ?s'))"
    using find_one_ok [OF q2, of "[(''_id'', i)]"] f2 by simp
  have bysid: "(\<forall>d \<in> set (coll m). map_of d ''_id'' \<noteq> None) \<longrightarrow>
        fst (find_one ?flt m2) = Inr (Some (config ?s'))"
  proof
    assume "\<forall>d \<in> set (coll m). map_of d ''_id'' \<noteq> None"
    with wf1 obtain j where j: "map_of cfg ''_id'' = Some j" by auto
    with same have ij: "i = j" by simp
    from f1 have "matches ?flt cfg" by (auto simp: find_Some_iff)
    then have "map_of cfg ''service_id'' = Some (PStr ''dropbox'')" by (simp add: matches_def)
    with vals2 have "matches ?flt cfg2" by (simp add: matches_def)
    from find_upsert_some [OF f1 j this] ij c2
    have "find (matches ?flt) (coll m2) = Some cfg2" by simp
    with find_one_ok [OF q2, of ?flt] show "fst (find_one ?flt m2) = Inr (Some (config ?s'))"
      by simp
  qed
  show ?thesis
    by (intro exI conjI) (rule run, rule k, rule at, rule en, rule id, rule byid, rule bysid)
qed

text \<open>
  C5, as the specification states it, asks that the request token and its secret are
  absent from the configuration after the exchange, also when the exchange fails. When
  \<open>get_access_token\<close> raises, \<open>tumblr_callback\<close> is left before the two \<open>del\<close> statements:
  the registry holds the service as it was, with both fields.
\<close>

theorem tumblr_callback_failed_exchange_keeps_request_token:
  "fst (tumblr_callback offline [(''oauth_token'', ''rt''), (''oauth_verifier'', ''v1'')] pending_app)
     = Inl (ThirdParty ''offline'') \<and>
   map_of (services (snd (tumblr_callback offline
       [(''oauth_token'', ''rt''), (''oauth_verifier'', ''v1'')] pending_app))) ''tumblr''
     = Some tumblr_pending \<and>
   map_of (config tumblr_pending) ''request_token'' = Some (PStr ''rt'') \<and>
   map_of (config tumblr_pending) ''request_secret'' = Some (PStr ''rs'')"
  by (simp add: tumblr_callback_def pending_app_def tumblr_pending_def tumblr_auth_flow_def
        offline_def getitem_def)

text \<open>
  C5, amended: when the callback carries both parameters, the exchange answers the access
  token and the store accepts the writes, the callback answers the redirect to the
  settings page, and afterwards the fields \<open>request_token\<close> and \<open>request_secret\<close> are absent
  from the configuration of the Tumblr service, which holds the access token and is the
  document the store holds under its id. When the exchange raises, the exception leaves
  the callback and the state is the one the callback was called in.
\<close>

theorem tumblr_callback_request_token:
  "str_truthy (map_of args ''oauth_token'') \<and> map_of args ''oauth_verifier'' = Some v \<and> v \<noteq> [] \<and>
   map_of (services st) ''tumblr'' = Some ts \<and> tumblr_auth_flow (services st) = Inr flow \<longrightarrow>
     (get_access_token tp flow (getitem ts ''request_token'') (getitem ts ''request_secret'') v
        = Inr (tok, sec) \<and> True \<notin> set (faults (mongo st)) \<longrightarrow>
        (\<exists>st' ts' i. tumblr_callback tp args st = (Inr (Redirect ''/settings''), st') \<and>
           map_of (services st') ''tumblr'' = Some ts' \<and>
           map_of (config ts') ''request_token'' = None \<and>
           map_of (config ts') ''request_secret'' = None \<and>
           map_of (config ts') ''access_token'' = Some (PList [PStr tok, PStr sec]) \<and>
           map_of (config ts') ''_id'' = Some i \<and>
           fst (find_one [(''_id'', i)] (mongo st')) = Inr (Some (config ts')))) \<and>
     (get_access_token tp flow (getitem ts ''request_token'') (getitem ts ''request_secret'') v
        = Inl e \<longrightarrow> tumblr_callback tp args st = (Inl e, st))"
  using tumblr_callback_success [of args v st ts flow tp tok sec]
    tumblr_callback_failure [of args v st ts flow tp e]
  by (intro impI conjI) (elim conjE, assumption)+

theorem tumblr_callback_request_token_witness:
  "tumblr_callback accepting [(''oauth_token'', ''rt''), (''oauth_verifier'', ''v1'')] pending_app
     = (Inr (Redirect ''/settings''),
        \<lparr>services = [(''tumblr'',
            \<lparr>kind = Tumblr, client_key = Some ''key'', client_secret = Some ''secret'',
             hostname = Some ''blog.tumblr.com'',
             config = [(''_id'', PId 1), (''service_id'', PStr ''tumblr''),
                       (''access_token'', PList [PStr ''at'', PStr ''as''])]\<rparr>)],
         mongo = \<lparr>coll = [[(''_id'', PId 1), (''service_id'', PStr ''tumblr''),
                           (''access_token'', PList [PStr ''at'', PStr ''as''])]],
                  faults = []\<rparr>,
         flashes = []\<rparr>) \<and>
   tumblr_callback offline [(''oauth_token'', ''rt''), (''oauth_verifier'', ''v1'')] pending_app
     = (Inl (ThirdParty ''offline''), pending_app)"
  using tumblr_callback_request_token [where args = "[(''oauth_token'', ''rt''), (''oauth_verifier'', ''v1'')]"
      and v = "''v1''" and st = pending_app and ts = tumblr_pending and tp = accepting
      and flow = "\<lparr>consumer_key = Some ''key'', consumer_secret = Some ''secret'',
                    base_url = ''https://api.tumblr.com/v2/blog/blog.tumblr.com/''\<rparr>"
      and tok = "''at''" and sec = "''as''"]
    tumblr_callback_request_token [where args = "[(''oauth_token'', ''rt''), (''oauth_verifier'', ''v1'')]"
      and v = "''v1''" and st = pending_app and ts = tumblr_pending and tp = offline
      and flow = "\<lparr>consumer_key = Some ''key'', consumer_secret = Some ''secret'',
                    base_url = ''https://api.tumblr.com/v2/blog/blog.tumblr.com/''\<rparr>"
      and e = "ThirdParty ''offline''"]
  by (simp add: tumblr_callback_def pending_app_def tumblr_pending_def tumblr_auth_flow_def
        accepting_def offline_def getitem_def setitem_def delitem_def save_def raises_def
        tick_def upsert_def put_service_def redirect_to_def url_for_settings Let_def)

text \<open>
  C9: when the environment holds a non-empty \<open>DROPBOX_TOKEN\<close> and the store accepts the
  calls, the construction of the Dropbox service answers a service whose configuration
  holds the token as \<open>access_token\<close>, whatever credential the stored document held before,
  and which is enabled; no authorization flow takes part. The store holds the
  configuration under its id, and, when every stored document has an id, it is the
  document that the filter on \<open>service_id\<close> finds.
\<close>

theorem dropbox_token_from_environment:
  "map_of environ ''DROPBOX_TOKEN'' = Some t \<and> t \<noteq> [] \<and> True \<notin> set (faults m) \<longrightarrow>
     (\<exists>s m' i. DropboxService_init environ m = (Inr s, m') \<and> kind s = Dropbox \<and>
        map_of (config s) ''access_token'' = Some (PStr t) \<and> is_enabled s \<and>
        map_of (config s) ''_id'' = Some i \<and>
        fst (find_one [(''_id'', i)] m') = Inr (Some (config s)) \<and>
        ((\<forall>d \<in> set (coll m). map_of d ''_id'' \<noteq> None) \<longrightarrow>
           fst (find_one [(''service_id'', PStr ''dropbox'')] m') = Inr (Some (config s))))"
  using DropboxService_init_token [of environ t m]
  by (intro impI) (elim conjE, assumption)

theorem dropbox_token_from_environment_witness:
  "DropboxService_init [(''DROPBOX_TOKEN'', ''envtok'')]
     \<lparr>coll = [[(''_id'', PId 0), (''service_id'', PStr ''dropbox''),
               (''access_token'', PStr ''old'')]], faults = []\<rparr>
   = (Inr \<lparr>kind = Dropbox, client_key = None, client_secret = None, hostname = None,
           config = [(''_id'', PId 0), (''service_id'', PStr ''dropbox''),
                     (''access_token'', PStr ''envtok'')]\<rparr>,
      \<lparr>coll = [[(''_id'', PId 0), (''service_id'', PStr ''dropbox''),
                (''access_token'', PStr ''envtok'')]], faults = []\<rparr>) \<and>
   is_enabled \<lparr>kind = Dropbox, client_key = None, client_secret = None, hostname = None,
           config = [(''_id'', PId 0), (''service_id'', PStr ''dropbox''),
                     (''access_token'', PStr ''envtok'')]\<rparr>"
  using dropbox_token_from_environment [of "[(''DROPBOX_TOKEN'', ''envtok'')]" "''envtok''"
      "\<lparr>coll = [[(''_id'', PId 0), (''service_id'', PStr ''dropbox''),
                 (''access_token'', PStr ''old'')]], faults = []\<rparr>"]
  by (simp add: DropboxService_init_def register_def find_one_def matches_def setitem_def
        save_def raises_def tick_def upsert_def is_enabled_def getitem_def Let_def)

section \<open>The submission\<close>

text \<open>
  C6, as the specification states it, asks that \<open>process\<close> fails with
  \<open>NotConfiguredError\<close> when the service is not both available and enabled. A Dropbox
  service with a token and no client key is not available; its \<open>process\<close> uploads the
  file and answers the metadata.
\<close>

theorem process_of_unavailable_dropbox_succeeds:
  "\<not> (is_available dropbox_keyless \<and> is_enabled dropbox_keyless) \<and>
   process accepting [] dropbox_keyless noon = Inr (PDict [(''path'', PStr ''x.txt'')])"
  by (simp add: is_available_def dropbox_keyless_def process_def accepting_def noon_def)

text \<open>
  C6, amended: \<open>process\<close> has no guard and no error of its own for a service that is not
  configured. An exception it raises is \<open>NotImplementedError\<close> (the configuration-only
  service), \<open>KeyError\<close> (no Tumblr service in the registry) or the exception that the call
  to the third party raised. On a Dropbox service the outcome is that of the upload
  with the stored \<open>access_token\<close> (\<open>None\<close> when the field is absent), so two Dropbox services
  with the same stored token have the same outcome, whatever their client key and
  secret. On the Tumblr service of the registry the outcome is that of the post issued
  with the flow built from its own client key, secret and hostname, whether present or
  not, and with the stored \<open>access_token\<close>.
\<close>

theorem process_unguarded:
  "(kind s = Dropbox \<longrightarrow>
      process tp reg s p = put_file tp (getitem s ''access_token'') (filename p) (data p)) \<and>
   (kind s = Dropbox \<and> kind s' = Dropbox \<and>
    getitem s ''access_token'' = getitem s' ''access_token'' \<longrightarrow>
      process tp reg s p = process tp reg' s' p) \<and>
   (kind s = Tumblr \<and> map_of reg ''tumblr'' = Some s \<longrightarrow>
      process tp reg s p =
        post tp \<lparr>consumer_key = client_key s, consumer_secret = client_secret s,
                 base_url = ''https://api.tumblr.com/v2/blog/'' @ format_s (hostname s) @ ''/''\<rparr>
          (getitem s ''access_token'')
          [(''type'', PStr ''text''), (''state'', PStr ''published''),
           (''title'', PStr (filename p)), (''body'', PStr (data p))]) \<and>
   (kind s = JIFBOX \<longrightarrow> process tp reg s p = Inl NotImplementedError) \<and>
   (process tp reg s p = Inl e \<longrightarrow>
      e = NotImplementedError \<or> e = KeyError ''tumblr'' \<or>
      put_file tp (getitem s ''access_token'') (filename p) (data p) = Inl e \<or>
      (\<exists>flow. post tp flow (getitem s ''access_token'')
                 [(''type'', PStr ''text''), (''state'', PStr ''published''),
                  (''title'', PStr (filename p)), (''body'', PStr (data p))] = Inl e))"
proof (intro conjI impI)
  assume "kind s = Dropbox"
  then show "process tp reg s p = put_file tp (getitem s ''access_token'') (filename p) (data p)"
    by (simp add: process_def)
next
  assume "kind s = Dropbox \<and> kind s' = Dropbox \<and>
    getitem s ''access_token'' = getitem s' ''access_token''"
  then show "process tp reg s p = process tp reg' s' p"
    by (simp add: process_def)
next
  assume "kind s = Tumblr \<and> map_of reg ''tumblr'' = Some s"
  then show "process tp reg s p =
        post tp \<lparr>consumer_key = client_key s, consumer_secret = client_secret s,
                 base_url = ''https://api.tumblr.com/v2/blog/'' @ format_s (hostname s) @ ''/''\<rparr>
          (getitem s ''access_token'')
          [(''type'', PStr ''text''), (''state'', PStr ''published''),
           (''title'', PStr (filename p)), (''body'', PStr (data p))]"
    by (simp add: process_def tumblr_auth_flow_def)
next
  assume "kind s = JIFBOX"
  then show "process tp reg s p = Inl NotImplementedError"
    by (simp add: process_def)
next
  assume raised: "process tp reg s p = Inl e"
  show "e = NotImplementedError \<or> e = KeyError ''tumblr'' \<or>
      put_file tp (getitem s ''access_token'') (filename p) (data p) = Inl e \<or>
      (\<exists>flow. post tp flow (getitem s ''access_token'')
                 [(''type'', PStr ''text''), (''state'', PStr ''published''),
                  (''title'', PStr (filename p)), (''body'', PStr (data p))] = Inl e)"
  proof (cases "kind s")
    case Dropbox
    with raised show ?thesis by (simp add: process_def)
  next
    case JIFBOX
    with raised show ?thesis by (simp add: process_def)
  next
    case Tumblr
    show ?thesis
    proof (cases "map_of reg ''tumblr''")
      case None
      with raised Tumblr show ?thesis by (simp add: process_def tumblr_auth_flow_def)
    next
      case (Some ts)
      let ?flow = "\<lparr>consumer_key = client_key ts, consumer_secret = client_secret ts,
                  base_url = ''https://api.tumblr.com/v2/blog/'' @ format_s (hostname ts) @ ''/''\<rparr>"
      from raised Tumblr Some have
        "post tp ?flow (getitem s ''access_token'')
           [(''type'', PStr ''text''), (''state'', PStr ''published''),
            (''title'', PStr (filename p)), (''body'', PStr (data p))] = Inl e"
        by (simp add: process_def tumblr_auth_flow_def)
      then show ?thesis
        by (intro disjI2 exI [where x = ?flow])
    qed
  qed
qed


theorem process_unguarded_witness:
  "\<not> is_enabled tumblr_unauthorized \<and>
   process accepting [(''tumblr'', tumblr_unauthorized)] tumblr_unauthorized noon
     = Inr (PDict [(''meta'', PDict [(''status'', PStr ''201'')])]) \<and>
   process accepting [] dropbox_keyless noon = process accepting [] dropbox_ok noon \<and>
   process accepting [] jifbox noon = Inl NotImplementedError \<and>
   process offline [] dropbox_ok noon = Inl (ThirdParty ''offline'')"
  using process_unguarded [where s = tumblr_unauthorized and tp = accepting
      and reg = "[(''tumblr'', tumblr_unauthorized)]" and p = noon]
    process_unguarded [where s = dropbox_keyless and s' = dropbox_ok and tp = accepting
      and reg = "[]" and reg' = "[]" and p = noon]
    process_unguarded [where s = jifbox and tp = accepting and reg = "[]" and p = noon]
    process_unguarded [where s = dropbox_ok and tp = offline and reg = "[]" and p = noon
      and e = "ThirdParty ''offline''"]
  by (simp add: tumblr_unauthorized_def jifbox_def dropbox_keyless_def dropbox_ok_def
        accepting_def offline_def tumblr_auth_flow_def is_enabled_def getitem_def process_def)

end
